theory Spec2Isabelle
  imports Complex_Main "HOL-Library.Multiset"
begin

section \<open>Python strings\<close>

text \<open>
  A Python \<^verbatim>\<open>str\<close> is a sequence of code points. The model is \<^typ>\<open>string\<close>, one
  \<^typ>\<open>char\<close> per code point, which covers the code points below 256; the classification
  functions below are Python's (the Unicode database's) on that range.
\<close>

definition code_point :: "char \<Rightarrow> nat" where
  "code_point c = of_char c"

definition isspace :: "char \<Rightarrow> bool" where
  \<comment> \<open>\<^verbatim>\<open>str.isspace\<close>: TAB..CR, FS..US, SPACE, NEL, NBSP.\<close>
  "isspace c =
     (let n = code_point c
      in (9 \<le> n \<and> n \<le> 13) \<or> (28 \<le> n \<and> n \<le> 32) \<or> n = 133 \<or> n = 160)"

definition isalnum :: "char \<Rightarrow> bool" where
  \<comment> \<open>\<^verbatim>\<open>str.isalnum\<close>: letters, decimal digits and the other numeric characters.\<close>
  "isalnum c =
     (let n = code_point c
      in (48 \<le> n \<and> n \<le> 57) \<or> (65 \<le> n \<and> n \<le> 90) \<or> (97 \<le> n \<and> n \<le> 122)
       \<or> n = 170 \<or> n = 178 \<or> n = 179 \<or> n = 181 \<or> n = 185 \<or> n = 186
       \<or> (188 \<le> n \<and> n \<le> 190) \<or> (192 \<le> n \<and> n \<le> 214)
       \<or> (216 \<le> n \<and> n \<le> 246) \<or> (248 \<le> n \<and> n \<le> 255))"

definition lower_char :: "char \<Rightarrow> char" where
  "lower_char c =
     (let n = code_point c
      in if (65 \<le> n \<and> n \<le> 90) \<or> (192 \<le> n \<and> n \<le> 214) \<or> (216 \<le> n \<and> n \<le> 222)
         then char_of (n + 32) else c)"

definition lower :: "string \<Rightarrow> string" where
  \<comment> \<open>\<^verbatim>\<open>s.lower()\<close>\<close>
  "lower s = map lower_char s"

definition strip :: "string \<Rightarrow> string" where
  \<comment> \<open>\<^verbatim>\<open>s.strip()\<close>: leading and trailing whitespace removed.\<close>
  "strip s = rev (dropWhile isspace (rev (dropWhile isspace s)))"

fun startswith :: "string \<Rightarrow> string \<Rightarrow> bool" where
  "startswith s [] = True"
| "startswith [] (k # ks) = False"
| "startswith (c # s) (k # ks) = (c = k \<and> startswith s ks)"

fun contains :: "string \<Rightarrow> string \<Rightarrow> bool" where
  \<comment> \<open>\<^verbatim>\<open>k in s\<close> for strings: \<open>k\<close> occurs in \<open>s\<close> as a contiguous substring.\<close>
  "contains [] k = (k = [])"
| "contains (c # s) k = (startswith (c # s) k \<or> contains s k)"

subsection \<open>Paths (\<^verbatim>\<open>os.path\<close> on POSIX)\<close>

definition basename :: "string \<Rightarrow> string" where
  \<comment> \<open>\<^verbatim>\<open>os.path.basename\<close>: what follows the last slash.\<close>
  "basename p = rev (takeWhile (\<lambda>c. c \<noteq> CHR ''/'') (rev p))"

definition splitext_ext :: "string \<Rightarrow> string" where
  \<comment> \<open>\<^verbatim>\<open>os.path.splitext(p)[1]\<close>: from the last dot of the base name on, unless only
      dots (or nothing) precede it there.\<close>
  "splitext_ext p =
     (let name = basename p;
          ext = rev (takeWhile (\<lambda>c. c \<noteq> CHR ''.'') (rev name));
          stem = take (length name - length ext - 1) name
      in if CHR ''.'' \<in> set name \<and> (\<exists>c \<in> set stem. c \<noteq> CHR ''.'')
         then CHR ''.'' # ext else [])"

definition path_join :: "string \<Rightarrow> string \<Rightarrow> string" where
  \<comment> \<open>\<^verbatim>\<open>os.path.join(a, b)\<close>\<close>
  "path_join a b =
     (if startswith b ''/'' then b
      else if a = [] \<or> last a = CHR ''/'' then a @ b
      else a @ ''/'' @ b)"

section \<open>Tables\<close>

text \<open>
  A cell of a data frame is missing (\<^verbatim>\<open>NaN\<close>, \<^verbatim>\<open>None\<close>, \<^verbatim>\<open>NaT\<close>), a string, a number
  (by its value) or a timestamp (nanoseconds since the epoch). A frame has its column
  labels in order (by their \<^verbatim>\<open>str\<close> text) and its rows in order, each row holding one
  cell per column. The row index is not modelled: nothing the program writes or reports
  depends on it (\<^verbatim>\<open>to_csv(index=False)\<close>).
\<close>

datatype cell = NA | Str string | Num rat | Ts int

record frame =
  columns :: "string list"
  rows :: "cell list list"

definition rect :: "frame \<Rightarrow> bool" where
  \<comment> \<open>Every row has one cell per column, as in every pandas frame.\<close>
  "rect f = list_all (\<lambda>r. length r = length (columns f)) (rows f)"

definition empty :: "frame \<Rightarrow> bool" where
  \<comment> \<open>\<^verbatim>\<open>df.empty\<close>: some axis has length 0.\<close>
  "empty f = (rows f = [] \<or> columns f = [])"

text \<open>
  A row of a file read without a header (\<^verbatim>\<open>header=None\<close>): each cell is \<open>None\<close> where
  \<^verbatim>\<open>pd.notna\<close> is false and otherwise carries its \<^verbatim>\<open>str\<close> text.
\<close>

type_synonym raw_row = "string option list"

datatype engine = Openpyxl | Xlrd

text \<open>
  What the program takes from its surroundings: the files as pandas parses them, the
  timestamp parser, and the directory of the outputs. A reader yields \<open>None\<close> where the
  pandas call raises.
  \<^item> \<open>read_csv_raw p\<close>, \<open>read_excel_raw e p\<close>: all rows of the file at \<open>p\<close> read with
    \<^verbatim>\<open>header=None\<close>; the program's \<^verbatim>\<open>nrows=30\<close> keeps the first 30 of them.
  \<^item> \<open>read_csv p h\<close>, \<open>read_excel e p h\<close>: the frame read with \<^verbatim>\<open>header=h\<close>.
  \<^item> \<open>to_datetime vs\<close>: \<^verbatim>\<open>pd.to_datetime\<close> on a column, one timestamp or \<^verbatim>\<open>NaT\<close>
    (\<open>None\<close>) per value.
\<close>

record env =
  read_csv_raw :: "string \<Rightarrow> raw_row list option"
  read_excel_raw :: "engine \<Rightarrow> string \<Rightarrow> raw_row list option"
  read_csv :: "string \<Rightarrow> nat \<Rightarrow> frame option"
  read_excel :: "engine \<Rightarrow> string \<Rightarrow> nat \<Rightarrow> frame option"
  to_datetime :: "cell list \<Rightarrow> int option list option"
  OUTPUT_DIR :: string

section \<open>Header Locator\<close>

definition HEADER_KEYWORDS :: "string set" where
  "HEADER_KEYWORDS = set
     [''instrument'', ''market position'', ''quantity'', ''entry price'',
      ''exit price'', ''profit'', ''commission'', ''mae'', ''mfe'',
      ''entry time'', ''exit time'', ''trade'', ''entry name'', ''exit name'',
      ''cum. net profit'', ''run-up'', ''drawdown'', ''account'', ''contract'',
      ''entry'', ''exit'', ''p&l'', ''pnl'']"

definition row_lower :: "raw_row \<Rightarrow> string set" where
  \<comment> \<open>\<^verbatim>\<open>{str(v).strip().lower() for v in row if pd.notna(v)}\<close>\<close>
  "row_lower row = set (map (\<lambda>s. lower (strip s)) (List.map_filter id row))"

definition is_header :: "raw_row \<Rightarrow> bool" where
  \<comment> \<open>\<^verbatim>\<open>row_lower & HEADER_KEYWORDS\<close> is not empty.\<close>
  "is_header row = (row_lower row \<inter> HEADER_KEYWORDS \<noteq> {})"

fun first_header :: "nat \<Rightarrow> raw_row list \<Rightarrow> nat option" where
  \<comment> \<open>The loop over \<^verbatim>\<open>raw.iterrows()\<close>, from index \<open>i\<close> on: the first hit returns.\<close>
  "first_header i [] = None"
| "first_header i (row # rest) =
     (if is_header row then Some i else first_header (Suc i) rest)"

definition skip_bad_lines :: "raw_row list \<Rightarrow> raw_row list option" where
  \<comment> \<open>What \<^verbatim>\<open>pd.read_csv(header=None, on_bad_lines="skip")\<close> keeps of a file, given its
      lines that are not blank, each split into its fields: the first line fixes the
      number of fields, a later line with more fields is skipped, one with fewer is filled
      up with missing values. A file with no line raises.\<close>
  "skip_bad_lines ls =
     (case ls of
        [] \<Rightarrow> None
      | l # rest \<Rightarrow>
          Some (l # map (\<lambda>r. r @ replicate (length l - length r) None)
                        (filter (\<lambda>r. length r \<le> length l) rest)))"

definition raw_file :: "env \<Rightarrow> string \<Rightarrow> raw_row list option" where
  \<comment> \<open>The reader \<^verbatim>\<open>detect_header_row\<close> picks by the extension, before \<^verbatim>\<open>nrows\<close>.\<close>
  "raw_file E filepath =
     (let ext = lower (splitext_ext filepath)
      in if ext = ''.xlsx'' \<or> ext = ''.xls''
         then read_excel_raw E (if ext = ''.xlsx'' then Openpyxl else Xlrd) filepath
         else read_csv_raw E filepath)"

definition read_raw :: "env \<Rightarrow> string \<Rightarrow> raw_row list option" where
  \<comment> \<open>The \<^verbatim>\<open>try\<close> block of \<^verbatim>\<open>detect_header_row\<close>, with \<^verbatim>\<open>nrows=30\<close>; \<open>None\<close> is its
      \<^verbatim>\<open>except\<close>.\<close>
  "read_raw E filepath = map_option (take 30) (raw_file E filepath)"

definition detect_header_row :: "env \<Rightarrow> string \<Rightarrow> nat" where
  "detect_header_row E filepath =
     (case read_raw E filepath of
        None \<Rightarrow> 0
      | Some raw \<Rightarrow> (case first_header 0 raw of Some i \<Rightarrow> i | None \<Rightarrow> 0))"

section \<open>File Reader\<close>

definition dropna_rows :: "frame \<Rightarrow> frame" where
  \<comment> \<open>\<^verbatim>\<open>df.dropna(how="all")\<close>: rows with no value at all go.\<close>
  "dropna_rows f = f\<lparr>rows := filter (\<lambda>r. list_ex (\<lambda>c. c \<noteq> NA) r) (rows f)\<rparr>"

definition dropna_columns :: "frame \<Rightarrow> frame" where
  \<comment> \<open>\<^verbatim>\<open>df.dropna(axis=1, how="all")\<close>: columns with no value at all go.\<close>
  "dropna_columns f =
     (let keep = filter (\<lambda>j. list_ex (\<lambda>r. r ! j \<noteq> NA) (rows f)) [0..<length (columns f)]
      in \<lparr>columns = map (\<lambda>j. columns f ! j) keep,
          rows = map (\<lambda>r. map (\<lambda>j. r ! j) keep) (rows f)\<rparr>)"

definition clean :: "frame \<Rightarrow> frame option" where
  \<comment> \<open>Lines 72 to 75 of \<^verbatim>\<open>read_file\<close>.\<close>
  "clean df =
     (let df1 = dropna_rows df;
          df2 = dropna_columns df1;
          df3 = df2\<lparr>columns := map strip (columns df2)\<rparr>
      in if empty df3 then None else Some df3)"

definition read_file :: "env \<Rightarrow> string \<Rightarrow> frame option" where
  \<comment> \<open>\<open>None\<close> from a reader is the \<^verbatim>\<open>except\<close> branch, which returns \<^verbatim>\<open>None\<close> too.\<close>
  "read_file E filepath =
     (let ext = lower (splitext_ext filepath);
          header_row = detect_header_row E filepath
      in if ext = ''.xlsx'' \<or> ext = ''.xls'' then
           (case read_excel E (if ext = ''.xlsx'' then Openpyxl else Xlrd) filepath header_row of
              None \<Rightarrow> None
            | Some df \<Rightarrow> clean df)
         else if ext = ''.csv'' then
           (case read_csv E filepath header_row of
              None \<Rightarrow> None
            | Some df \<Rightarrow> clean df)
         else None)"

section \<open>Merge Engine\<close>

subsection \<open>Events, queues and the files written\<close>

datatype event =
    Progress nat nat string
  | Done nat nat string
  | Error string

text \<open>
  The state \<^verbatim>\<open>compile_files\<close> works on: the progress queues by job (a queue is the list
  of what was put on it, oldest first), the files of the output directory by path (a file
  is the table written to it), and the history of the function's actions on the world in
  the order they happen: a put on a job's queue, a call of the File Reader, a write.
\<close>

datatype action =
    Put string event
  | ReadFile string
  | WriteCsv string

record state =
  progress_queues :: "string \<rightharpoonup> event list"
  output_files :: "string \<rightharpoonup> frame"
  history :: "action list"

definition push :: "string \<Rightarrow> event \<Rightarrow> state \<Rightarrow> state" where
  \<comment> \<open>\<^verbatim>\<open>if q: q.put(msg)\<close>, with \<^verbatim>\<open>q = progress_queues.get(job_id)\<close>. A \<^verbatim>\<open>queue.Queue\<close>
      is always true, so the test is that the job has a queue.\<close>
  "push job_id msg st =
     (case progress_queues st job_id of
        None \<Rightarrow> st
      | Some q \<Rightarrow> st\<lparr>progress_queues := (progress_queues st)(job_id \<mapsto> q @ [msg]),
                     history := history st @ [Put job_id msg]\<rparr>)"

fun read_files ::
  "env \<Rightarrow> string \<Rightarrow> nat \<Rightarrow> nat \<Rightarrow> string list \<Rightarrow> frame list \<Rightarrow> state \<Rightarrow> frame list \<times> state" where
  \<comment> \<open>The loop \<^verbatim>\<open>for idx, fp in enumerate(file_paths, 1)\<close>, from index \<open>idx\<close> on.\<close>
  "read_files E job_id total_n idx [] frames st = (frames, st)"
| "read_files E job_id total_n idx (fp # fps) frames st =
     (let st1 = push job_id (Progress idx total_n (basename fp)) st;
          st2 = st1\<lparr>history := history st1 @ [ReadFile fp]\<rparr>;
          frames' = (case read_file E fp of None \<Rightarrow> frames | Some df \<Rightarrow> frames @ [df])
      in read_files E job_id total_n (Suc idx) fps frames' st2)"

subsection \<open>Concatenation and deduplication\<close>

datatype exn = NoObjectsToConcatenate | InvalidIndexError

fun keep_first :: "'a list \<Rightarrow> 'a list \<Rightarrow> 'a list" where
  \<comment> \<open>The elements not seen before, in order: of equal elements the first stays.\<close>
  "keep_first seen [] = []"
| "keep_first seen (x # xs) =
     (if x \<in> set seen then keep_first seen xs else x # keep_first (x # seen) xs)"

definition reindex :: "string list \<Rightarrow> string list \<Rightarrow> cell list \<Rightarrow> cell list" where
  \<comment> \<open>A row under the labels \<open>old\<close>, laid out under the labels \<open>new\<close>; a label it lacks
      gets a missing value.\<close>
  "reindex old new r = map (\<lambda>c. case map_of (zip old r) c of None \<Rightarrow> NA | Some v \<Rightarrow> v) new"

definition concat_frames :: "frame list \<Rightarrow> exn + frame" where
  \<comment> \<open>\<^verbatim>\<open>pd.concat(frames, ignore_index=True)\<close>. Frames with the same labels in the same
      order are stacked as they are. Otherwise the labels are the union in order of first
      appearance and each frame is reindexed to it, and pandas raises
      \<^verbatim>\<open>InvalidIndexError\<close> on reindexing a frame whose labels are not unique. Cells keep
      their exact values: the change of an integer column to floating point, when a frame
      lacks the column, is not modelled.\<close>
  "concat_frames frames =
     (if frames = [] then Inl NoObjectsToConcatenate
      else
        let cols = (if list_all (\<lambda>f. columns f = columns (hd frames)) frames
                    then columns (hd frames)
                    else keep_first [] (concat (map columns frames)))
        in if list_ex (\<lambda>f. columns f \<noteq> cols \<and> \<not> distinct (columns f)) frames
           then Inl InvalidIndexError
           else Inr \<lparr>columns = cols,
                     rows = concat (map (\<lambda>f. if columns f = cols then rows f
                                              else map (reindex (columns f) cols) (rows f))
                                        frames)\<rparr>)"

definition drop_duplicates :: "frame \<Rightarrow> frame" where
  \<comment> \<open>\<^verbatim>\<open>combined.drop_duplicates(subset=data_cols)\<close> with every column in the subset:
      rows equal in every column are duplicates (missing equals missing), the first stays.\<close>
  "drop_duplicates f = f\<lparr>rows := keep_first [] (rows f)\<rparr>"

subsection \<open>Temporal sort\<close>

definition is_candidate :: "string \<Rightarrow> bool" where
  \<comment> \<open>\<^verbatim>\<open>any(k in col.lower() for k in ("time", "date", "entry", "exit"))\<close>\<close>
  "is_candidate col = list_ex (contains (lower col)) [''time'', ''date'', ''entry'', ''exit'']"

definition col_pos :: "string list \<Rightarrow> string \<Rightarrow> nat" where
  \<comment> \<open>The position of the first column labelled \<open>col\<close>.\<close>
  "col_pos cols col = length (takeWhile (\<lambda>c. c \<noteq> col) cols)"

definition column_values :: "frame \<Rightarrow> nat \<Rightarrow> cell list" where
  "column_values f j = map (\<lambda>r. r ! j) (rows f)"

fun ts_cell :: "int option \<Rightarrow> cell" where
  "ts_cell None = NA"
| "ts_cell (Some t) = Ts t"

definition setitem :: "frame \<Rightarrow> nat \<Rightarrow> cell list \<Rightarrow> frame" where
  \<comment> \<open>\<^verbatim>\<open>combined[col] = series\<close> for the column at position \<open>j\<close>. The assignment aligns on
      the index: a row the series has no value for gets a missing one.\<close>
  "setitem f j vs =
     f\<lparr>rows := map (\<lambda>(i, r). r[j := (if i < length vs then vs ! i else NA)])
                   (enumerate 0 (rows f))\<rparr>"

fun ts_key :: "cell \<Rightarrow> int" where
  "ts_key (Ts t) = t"
| "ts_key c = 0"

definition sort_values :: "nat \<Rightarrow> frame \<Rightarrow> frame" where
  \<comment> \<open>\<^verbatim>\<open>combined.sort_values(col, inplace=True)\<close> on a column of timestamps: ascending,
      the rows with \<^verbatim>\<open>NaT\<close> last. pandas' default sort does not fix the order of rows with
      equal times; here they keep theirs.\<close>
  "sort_values j f =
     f\<lparr>rows := sort_key (\<lambda>r. ts_key (r ! j)) (filter (\<lambda>r. r ! j \<noteq> NA) (rows f))
                @ filter (\<lambda>r. r ! j = NA) (rows f)\<rparr>"

definition try_sort :: "env \<Rightarrow> string \<Rightarrow> frame \<Rightarrow> frame option" where
  \<comment> \<open>The \<^verbatim>\<open>try\<close> block of the sort loop; \<open>None\<close> is its \<^verbatim>\<open>except\<close>, reached before
      anything is assigned. Under a label that is not unique \<^verbatim>\<open>combined[col]\<close> is a
      frame, on which \<^verbatim>\<open>pd.to_datetime\<close> raises. \<^verbatim>\<open>reset_index\<close> renumbers the index,
      which is not modelled.\<close>
  "try_sort E col f =
     (if count_list (columns f) col \<noteq> 1 then None
      else
        let j = col_pos (columns f) col
        in case to_datetime E (column_values f j) of
             None \<Rightarrow> None
           | Some ts \<Rightarrow> Some (sort_values j (setitem f j (map ts_cell ts))))"

fun sort_loop :: "env \<Rightarrow> string list \<Rightarrow> frame \<Rightarrow> frame" where
  \<comment> \<open>\<^verbatim>\<open>for col in combined.columns\<close>, over the columns still to visit: \<^verbatim>\<open>break\<close> on the
      first success, \<^verbatim>\<open>continue\<close> on a failure.\<close>
  "sort_loop E [] f = f"
| "sort_loop E (col # cols) f =
     (if is_candidate col then
        (case try_sort E col f of
           Some f' \<Rightarrow> f'
         | None \<Rightarrow> sort_loop E cols f)
      else sort_loop E cols f)"

subsection \<open>Output name and the whole of \<^verbatim>\<open>compile_files\<close>\<close>

definition safe_name :: "string \<Rightarrow> string" where
  "safe_name account_name =
     strip (map (\<lambda>c. if isalnum c \<or> c \<in> set '' _-'' then c else CHR ''_'') account_name)"

definition output_filename :: "string \<Rightarrow> string" where
  \<comment> \<open>\<^verbatim>\<open>f"{safe_name}_compiled.csv"\<close>\<close>
  "output_filename account_name = safe_name account_name @ ''_compiled.csv''"

definition compile_files ::
  "env \<Rightarrow> string list \<Rightarrow> string \<Rightarrow> string \<Rightarrow> state
     \<Rightarrow> (exn + (string option \<times> nat \<times> nat)) \<times> state" where
  \<comment> \<open>The result is the exception that escapes (\<open>Inl\<close>) or the returned triple, with the
      state as the call leaves it.\<close>
  "compile_files E file_paths account_name job_id st =
     (let total_n = length file_paths;
          (frames, st1) = read_files E job_id total_n 1 file_paths [] st
      in if frames = [] then
           (Inr (None, 0, 0),
            push job_id (Error ''No readable data found in the selected files.'') st1)
         else
           case concat_frames frames of
             Inl e \<Rightarrow> (Inl e, st1)
           | Inr combined0 \<Rightarrow>
               let rows_before = length (rows combined0);
                   combined1 = drop_duplicates combined0;
                   dupes_removed = rows_before - length (rows combined1);
                   combined = sort_loop E (columns combined1) combined1;
                   out_path = path_join (OUTPUT_DIR E) (output_filename account_name);
                   st2 = st1\<lparr>output_files := (output_files st1)(out_path \<mapsto> combined),
                             history := history st1 @ [WriteCsv out_path]\<rparr>;
                   st3 = push job_id
                           (Done (length (rows combined)) dupes_removed (basename out_path)) st2
               in (Inr (Some out_path, length (rows combined), dupes_removed), st3))"

section \<open>Vocabulary of the properties\<close>

definition progress_events :: "nat \<Rightarrow> nat \<Rightarrow> string list \<Rightarrow> event list" where
  \<comment> \<open>One progress event per path, numbered from \<open>idx\<close>, each with the total and the
      path's file name.\<close>
  "progress_events idx total_n fps =
     map (\<lambda>(i, fp). Progress i total_n (basename fp)) (enumerate idx fps)"

definition progress_actions :: "string \<Rightarrow> nat \<Rightarrow> nat \<Rightarrow> string list \<Rightarrow> action list" where
  \<comment> \<open>Per path, the put of its progress event and then the read of the file.\<close>
  "progress_actions job_id idx total_n fps =
     concat (map (\<lambda>(i, fp). [Put job_id (Progress i total_n (basename fp)), ReadFile fp])
                 (enumerate idx fps))"

fun is_terminal :: "event \<Rightarrow> bool" where
  "is_terminal (Progress i n name) = False"
| "is_terminal (Done n d name) = True"
| "is_terminal (Error m) = True"

fun is_error :: "event \<Rightarrow> bool" where
  "is_error (Error m) = True"
| "is_error e = False"

fun is_write :: "action \<Rightarrow> bool" where
  "is_write (WriteCsv p) = True"
| "is_write a = False"

fun time_le :: "cell \<Rightarrow> cell \<Rightarrow> bool" where
  \<comment> \<open>The order of a sorted column of timestamps: by time, the missing ones last.\<close>
  "time_le (Ts a) (Ts b) = (a \<le> b)"
| "time_le c NA = True"
| "time_le c d = False"

definition read_tables :: "env \<Rightarrow> string list \<Rightarrow> frame list" where
  \<comment> \<open>The tables of the files the File Reader returns one for, in the order of the paths.\<close>
  "read_tables E fps = List.map_filter (read_file E) fps"

definition no_data_message :: string where
  "no_data_message = ''No readable data found in the selected files.''"

definition blank_row :: "cell list \<Rightarrow> bool" where
  "blank_row r = list_all (\<lambda>c. c = NA) r"

definition trimmed :: "string \<Rightarrow> bool" where
  \<comment> \<open>No whitespace at either end.\<close>
  "trimmed s = (s = [] \<or> (\<not> isspace (hd s) \<and> \<not> isspace (last s)))"

definition safe_char :: "char \<Rightarrow> bool" where
  "safe_char c = (isalnum c \<or> c = CHR '' '' \<or> c = CHR ''_'' \<or> c = CHR ''-'')"

section \<open>Example files\<close>

definition aapl :: "cell list" where
  "aapl = [Str ''AAPL'', Num 10, Num 100]"

definition msft :: "cell list" where
  "msft = [Str ''MSFT'', Num 5, Num 50]"

definition table_A :: frame where
  "table_A = \<lparr>columns = [''symbol'', ''qty'', ''price''], rows = [aapl, aapl]\<rparr>"

definition table_B :: frame where
  "table_B = \<lparr>columns = [''symbol'', ''qty'', ''price''], rows = [aapl, msft]\<rparr>"

definition symbols_raw :: "raw_row list \<Rightarrow> raw_row list" where
  "symbols_raw data = [Some ''symbol'', Some ''qty'', Some ''price''] # data"

definition trades_raw :: "raw_row list" where
  \<comment> \<open>An export with a title line above the header.\<close>
  "trades_raw =
     [[Some ''Trade history'', None, None, None, None, None],
      [Some '' Instrument'', Some ''Entry name'', Some ''Entry time '', Some ''Exit time'',
       Some ''Qty'', None],
      [Some ''ES'', Some ''Long'', Some ''2024-01-03'', Some ''2024-01-04'', Some ''1'', None],
      [None, None, None, None, None, None],
      [Some ''NQ'', Some ''Short'', Some ''2024-01-02'', Some ''2024-01-05'', Some ''2'', None]]"

definition trades_frame :: frame where
  \<comment> \<open>The same file read with the header at row 1.\<close>
  "trades_frame =
     \<lparr>columns = ['' Instrument'', ''Entry name'', ''Entry time '', ''Exit time'', ''Qty'',
                 ''Unnamed: 5''],
      rows = [[Str ''ES'', Str ''Long'', Str ''2024-01-03'', Str ''2024-01-04'', Num 1, NA],
              [NA, NA, NA, NA, NA, NA],
              [Str ''NQ'', Str ''Short'', Str ''2024-01-02'', Str ''2024-01-05'', Num 2, NA]]\<rparr>"

definition trades_clean :: frame where
  "trades_clean =
     \<lparr>columns = [''Instrument'', ''Entry name'', ''Entry time'', ''Exit time'', ''Qty''],
      rows = [[Str ''ES'', Str ''Long'', Str ''2024-01-03'', Str ''2024-01-04'', Num 1],
              [Str ''NQ'', Str ''Short'', Str ''2024-01-02'', Str ''2024-01-05'', Num 2]]\<rparr>"

definition trades_sorted :: frame where
  "trades_sorted =
     \<lparr>columns = [''Instrument'', ''Entry name'', ''Entry time'', ''Exit time'', ''Qty''],
      rows = [[Str ''NQ'', Str ''Short'', Ts 1704153600000000000, Str ''2024-01-05'', Num 2],
              [Str ''ES'', Str ''Long'', Ts 1704240000000000000, Str ''2024-01-04'', Num 1]]\<rparr>"

fun example_parse :: "cell \<Rightarrow> int option option" where
  \<comment> \<open>A date parser on the days the examples use; a missing value parses to \<^verbatim>\<open>NaT\<close>,
      anything else fails.\<close>
  "example_parse NA = Some None"
| "example_parse (Str s) =
     (if s = ''2024-01-02'' then Some (Some 1704153600000000000)
      else if s = ''2024-01-03'' then Some (Some 1704240000000000000)
      else if s = ''2024-01-04'' then Some (Some 1704326400000000000)
      else if s = ''2024-01-05'' then Some (Some 1704412800000000000)
      else None)"
| "example_parse c = None"

definition example_env :: env where
  "example_env =
     \<lparr>read_csv_raw = (\<lambda>p.
        if p = ''uploads/A.csv'' then
          Some (symbols_raw [[Some ''AAPL'', Some ''10'', Some ''100.0''],
                             [Some ''AAPL'', Some ''10'', Some ''100.0'']])
        else if p = ''uploads/B.csv'' then
          Some (symbols_raw [[Some ''AAPL'', Some ''10'', Some ''100.0''],
                             [Some ''MSFT'', Some ''5'', Some ''50.0'']])
        else if p = ''uploads/trades.csv'' then Some trades_raw
        else if p = ''uploads/blank.csv'' then Some [[Some ''symbol''], [None]]
        else if p = ''uploads/x.csv'' then Some [[Some ''Qty'', Some '' Qty''], [Some ''1'', Some ''2'']]
        else if p = ''uploads/y.csv'' then Some [[Some ''Price''], [Some ''3'']]
        else None),
      read_excel_raw = (\<lambda>e p. None),
      read_csv = (\<lambda>p h.
        if p = ''uploads/A.csv'' \<and> h = 0 then Some table_A
        else if p = ''uploads/B.csv'' \<and> h = 0 then Some table_B
        else if p = ''uploads/trades.csv'' \<and> h = 1 then Some trades_frame
        else if p = ''uploads/blank.csv'' \<and> h = 0 then Some \<lparr>columns = [''symbol''], rows = [[NA]]\<rparr>
        else if p = ''uploads/x.csv'' \<and> h = 0 then
          Some \<lparr>columns = [''Qty'', '' Qty''], rows = [[Num 1, Num 2]]\<rparr>
        else if p = ''uploads/y.csv'' \<and> h = 0 then Some \<lparr>columns = [''Price''], rows = [[Num 3]]\<rparr>
        else None),
      read_excel = (\<lambda>e p h. None),
      to_datetime = (\<lambda>vs. those (map example_parse vs)),
      OUTPUT_DIR = ''/srv/app/output''\<rparr>"

definition titled_lines :: "raw_row list" where
  \<comment> \<open>The lines of a CSV export whose header stands under a one-field title line:
      \<^verbatim>\<open>Trade history\<close>, \<^verbatim>\<open>Instrument,Qty\<close>, \<^verbatim>\<open>ES,1\<close>, \<^verbatim>\<open>NQ,2\<close>.\<close>
  "titled_lines =
     [[Some ''Trade history''],
      [Some ''Instrument'', Some ''Qty''],
      [Some ''ES'', Some ''1''],
      [Some ''NQ'', Some ''2'']]"

definition titled_env :: env where
  \<comment> \<open>Surroundings in which that file is at \<open>uploads/titled.csv\<close>; read without a header
      it gives what pandas keeps of its lines.\<close>
  "titled_env =
     \<lparr>read_csv_raw = (\<lambda>p. if p = ''uploads/titled.csv'' then skip_bad_lines titled_lines
                           else None),
      read_excel_raw = (\<lambda>e p. None),
      read_csv = (\<lambda>p h. None),
      read_excel = (\<lambda>e p h. None),
      to_datetime = (\<lambda>vs. None),
      OUTPUT_DIR = ''/srv/app/output''\<rparr>"

definition example_state :: state where
  \<comment> \<open>The job \<open>job-1\<close> has its queue, still empty; nothing is written yet.\<close>
  "example_state =
     \<lparr>progress_queues = [''job-1'' \<mapsto> []], output_files = Map.empty, history = []\<rparr>"

section \<open>Properties of the Header Locator\<close>

lemma first_header_bounds:
  "first_header i raw = Some k \<Longrightarrow> i \<le> k \<and> k < i + length raw"
  by (induction raw arbitrary: i) (fastforce split: if_splits)+

lemma read_raw_length: "read_raw E filepath = Some raw \<Longrightarrow> length raw \<le> 30"
  by (auto simp: read_raw_def)

text \<open>
  C9: \<^verbatim>\<open>detect_header_row\<close> is a total function of the file and its result is an index
  of the 30-row window, from 0 to 29, whether the read raises or not.
\<close>

theorem detect_header_row_range: "detect_header_row E filepath < 30"
proof (cases "read_raw E filepath")
  case None
  then show ?thesis by (simp add: detect_header_row_def)
next
  case (Some raw)
  show ?thesis
  proof (cases "first_header 0 raw")
    case None
    with Some show ?thesis by (simp add: detect_header_row_def)
  next
    case (Some k)
    from first_header_bounds [OF Some] have "k < length raw" by simp
    moreover from read_raw_length [OF \<open>read_raw E filepath = Some raw\<close>]
    have "length raw \<le> 30" .
    ultimately show ?thesis
      using Some \<open>read_raw E filepath = Some raw\<close> by (simp add: detect_header_row_def)
  qed
qed

lemma first_header_None:
  "first_header i raw = None \<longleftrightarrow> (\<forall>j<length raw. \<not> is_header (raw ! j))"
proof (induction raw arbitrary: i)
  case Nil
  show ?case by simp
next
  case (Cons row rest)
  show ?case
    by (simp add: Cons.IH All_less_Suc2 del: All_less_Suc)
qed

lemma first_header_Some:
  "first_header i raw = Some k \<Longrightarrow>
     i \<le> k \<and> k - i < length raw \<and> is_header (raw ! (k - i))
     \<and> (\<forall>j<k - i. \<not> is_header (raw ! j))"
proof (induction raw arbitrary: i)
  case Nil
  then show ?case by simp
next
  case (Cons row rest)
  show ?case
  proof (cases "is_header row")
    case True
    with Cons.prems show ?thesis by simp
  next
    case False
    with Cons.prems have rec: "first_header (Suc i) rest = Some k" by simp
    from Cons.IH [OF rec] have ih: "Suc i \<le> k" "k - Suc i < length rest"
      "is_header (rest ! (k - Suc i))" "\<forall>j<k - Suc i. \<not> is_header (rest ! j)" by auto
    from ih(1) have ki: "k - i = Suc (k - Suc i)" by arith
    have "\<forall>j<k - i. \<not> is_header ((row # rest) ! j)"
    proof (intro allI impI)
      fix j assume "j < k - i"
      then show "\<not> is_header ((row # rest) ! j)"
        using False ih(4) ki by (cases j) auto
    qed
    with ih ki show ?thesis by simp
  qed
qed

lemma is_header_iff:
  "is_header row \<longleftrightarrow> (\<exists>s. Some s \<in> set row \<and> lower (strip s) \<in> HEADER_KEYWORDS)"
proof -
  have "row_lower row = {lower (strip s) | s. Some s \<in> set row}"
    by (force simp: row_lower_def List.map_filter_def)
  then show ?thesis by (auto simp: is_header_def)
qed

text \<open>
  The Header Locator on the rows pandas yields for the file, of which it looks at the
  first 30 only. A row is a header row when one of its present cells, trimmed and
  lower-cased, is a keyword. The result is the index of the first header row of that
  window, 0 when the window has none, and 0 when the read raises. For a spreadsheet, and
  for a CSV file none of whose lines has more fields than its first, the rows pandas
  yields are the rows of the file, the shorter ones filled up with missing values.
\<close>

theorem detect_header_row_first_match:
  "(raw_file E p = None \<longrightarrow> detect_header_row E p = 0)
   \<and> (\<forall>g. raw_file E p = Some g \<longrightarrow>
         (let w = take 30 g; d = detect_header_row E p
          in ((\<exists>i<length w. is_header (w ! i)) \<longrightarrow>
                d < length w \<and> is_header (w ! d) \<and> (\<forall>j<d. \<not> is_header (w ! j)))
           \<and> ((\<forall>i<length w. \<not> is_header (w ! i)) \<longrightarrow> d = 0)))
   \<and> (\<forall>row. is_header row \<longleftrightarrow>
         (\<exists>s. Some s \<in> set row \<and> lower (strip s) \<in> HEADER_KEYWORDS))"
proof (intro conjI allI impI)
  assume "raw_file E p = None"
  then show "detect_header_row E p = 0"
    by (simp add: detect_header_row_def read_raw_def)
next
  fix g assume g: "raw_file E p = Some g"
  define w where "w = take 30 g"
  define d where "d = detect_header_row E p"
  have rr: "read_raw E p = Some w" by (simp add: read_raw_def g w_def)
  have hit: "d < length w \<and> is_header (w ! d) \<and> (\<forall>j<d. \<not> is_header (w ! j))"
    if ex: "\<exists>i<length w. is_header (w ! i)"
  proof -
    from ex have "first_header 0 w \<noteq> None" by (simp add: first_header_None)
    then obtain k where k: "first_header 0 w = Some k" by auto
    from first_header_Some [OF k]
    have "k < length w \<and> is_header (w ! k) \<and> (\<forall>j<k. \<not> is_header (w ! j))"
      by simp
    moreover have "d = k" by (simp add: d_def detect_header_row_def rr k)
    ultimately show ?thesis by simp
  qed
  have miss: "d = 0" if "\<forall>i<length w. \<not> is_header (w ! i)"
  proof -
    from that have "first_header 0 w = None" by (simp add: first_header_None)
    then show ?thesis by (simp add: d_def detect_header_row_def rr)
  qed
  from hit miss
  show "let w = take 30 g; d = detect_header_row E p
        in ((\<exists>i<length w. is_header (w ! i)) \<longrightarrow>
              d < length w \<and> is_header (w ! d) \<and> (\<forall>j<d. \<not> is_header (w ! j)))
         \<and> ((\<forall>i<length w. \<not> is_header (w ! i)) \<longrightarrow> d = 0)"
    unfolding Let_def w_def [symmetric] d_def [symmetric] by blast
next
  fix row
  show "is_header row \<longleftrightarrow> (\<exists>s. Some s \<in> set row \<and> lower (strip s) \<in> HEADER_KEYWORDS)"
    by (rule is_header_iff)
qed

theorem detect_header_row_first_match_witness:
  "raw_file example_env ''uploads/trades.csv'' = Some trades_raw
   \<and> 1 < length (take 30 trades_raw) \<and> is_header (take 30 trades_raw ! 1)
   \<and> detect_header_row example_env ''uploads/trades.csv'' < length (take 30 trades_raw)
   \<and> is_header (take 30 trades_raw ! detect_header_row example_env ''uploads/trades.csv'')
   \<and> detect_header_row example_env ''uploads/trades.csv'' = 1"
proof -
  have g: "raw_file example_env ''uploads/trades.csv'' = Some trades_raw" by code_simp
  have h: "1 < length (take 30 trades_raw) \<and> is_header (take 30 trades_raw ! 1)"
    by code_simp
  have d: "detect_header_row example_env ''uploads/trades.csv'' = 1" by code_simp
  from h have "\<exists>i<length (take 30 trades_raw). is_header (take 30 trades_raw ! i)" by blast
  with detect_header_row_first_match [of example_env "''uploads/trades.csv''", unfolded Let_def] g
  have "detect_header_row example_env ''uploads/trades.csv'' < length (take 30 trades_raw)
        \<and> is_header (take 30 trades_raw ! detect_header_row example_env ''uploads/trades.csv'')"
    by blast
  with g h d show ?thesis by blast
qed

lemma skip_bad_lines_all_rows:
  assumes "list_all (\<lambda>r. length r = length l) rest"
  shows "skip_bad_lines (l # rest) = Some (l # rest)"
proof -
  from assms have "filter (\<lambda>r. length r \<le> length l) rest = rest"
    by (simp add: list_all_iff)
  moreover from assms
  have "map (\<lambda>r. r @ replicate (length l - length r) None) rest = rest"
    by (induction rest) simp_all
  ultimately show ?thesis by (simp add: skip_bad_lines_def)
qed

text \<open>
  C4: the file with the lines \<^verbatim>\<open>Trade history\<close>, \<^verbatim>\<open>Instrument,Qty\<close>, \<^verbatim>\<open>ES,1\<close>, \<^verbatim>\<open>NQ,2\<close>
  has a keyword in its row 1 and none in its row 0, within the first 30 rows. Read with
  \<^verbatim>\<open>on_bad_lines="skip"\<close>, its lines of two fields are skipped after the title line of
  one field, so the Header Locator sees the title line alone and returns 0, not 1.
\<close>

theorem detect_header_row_skipped_header:
  "length titled_lines = 4
   \<and> \<not> is_header (titled_lines ! 0)
   \<and> is_header (titled_lines ! 1)
   \<and> raw_file titled_env ''uploads/titled.csv'' = skip_bad_lines titled_lines
   \<and> skip_bad_lines titled_lines = Some [[Some ''Trade history'']]
   \<and> detect_header_row titled_env ''uploads/titled.csv'' = 0"
  by code_simp

section \<open>Properties of the File Reader\<close>

lemma last_dropWhile: "dropWhile P xs \<noteq> [] \<Longrightarrow> last (dropWhile P xs) = last xs"
proof -
  assume ne: "dropWhile P xs \<noteq> []"
  have "last xs = last (takeWhile P xs @ dropWhile P xs)" by simp
  also have "\<dots> = last (dropWhile P xs)" using ne by (rule last_appendR)
  finally show ?thesis by simp
qed

lemma strip_ends:
  "strip s = [] \<or> (\<not> isspace (hd (strip s)) \<and> \<not> isspace (last (strip s)))"
proof (cases "strip s = []")
  case True
  then show ?thesis by simp
next
  case False
  define u where "u = dropWhile isspace s"
  define y where "y = dropWhile isspace (rev u)"
  have s: "strip s = rev y" by (simp add: strip_def u_def y_def)
  with False have y: "y \<noteq> []" by simp
  then have ru: "rev u \<noteq> []" by (auto simp: y_def)
  then have u: "u \<noteq> []" by simp
  from y have "\<not> isspace (hd y)" unfolding y_def by (rule hd_dropWhile)
  then have l: "\<not> isspace (last (strip s))" using y by (simp add: s last_rev)
  have "last y = last (rev u)" using y unfolding y_def by (rule last_dropWhile)
  also have "\<dots> = hd u" using u by (simp add: last_rev)
  finally have "hd (strip s) = hd u" using y by (simp add: s hd_rev)
  moreover have "\<not> isspace (hd u)" using u unfolding u_def by (rule hd_dropWhile)
  ultimately show ?thesis using l by simp
qed

lemma strip_fixed:
  assumes "s = [] \<or> (\<not> isspace (hd s) \<and> \<not> isspace (last s))"
  shows "strip s = s"
proof (cases "s = []")
  case True
  then show ?thesis by (simp add: strip_def)
next
  case False
  with assms have h: "\<not> isspace (hd s)" and l: "\<not> isspace (last s)" by auto
  from False h have a: "dropWhile isspace s = s" by (cases s) auto
  from False l have "\<not> isspace (hd (rev s))" by (simp add: hd_rev)
  with False have b: "dropWhile isspace (rev s) = rev s" by (cases "rev s") auto
  show ?thesis by (simp add: strip_def a b)
qed

lemma strip_strip: "strip (strip s) = strip s"
  by (rule strip_fixed) (rule strip_ends)

lemma rect_dropna_rows: "rect f \<Longrightarrow> rect (dropna_rows f)"
  by (auto simp: rect_def dropna_rows_def list_all_iff)

lemma dropna_rows_nonblank:
  "list_all (\<lambda>r. list_ex (\<lambda>c. c \<noteq> NA) r) (rows (dropna_rows f))"
  by (simp add: dropna_rows_def list_all_iff)

lemma rect_dropna_columns: "rect (dropna_columns f)"
  by (simp add: rect_def dropna_columns_def Let_def list_all_iff)

lemma dropna_columns_rows_nonblank:
  assumes "rect f" and "list_all (\<lambda>r. list_ex (\<lambda>c. c \<noteq> NA) r) (rows f)"
  shows "list_all (\<lambda>r. list_ex (\<lambda>c. c \<noteq> NA) r) (rows (dropna_columns f))"
proof -
  define keep where
    "keep = filter (\<lambda>j. list_ex (\<lambda>r. r ! j \<noteq> NA) (rows f)) [0..<length (columns f)]"
  have rows: "rows (dropna_columns f) = map (\<lambda>r. map (\<lambda>j. r ! j) keep) (rows f)"
    by (simp add: dropna_columns_def keep_def Let_def)
  have "list_ex (\<lambda>c. c \<noteq> NA) (map (\<lambda>j. r ! j) keep)" if r: "r \<in> set (rows f)" for r
  proof -
    from assms(2) r obtain c where "c \<in> set r" "c \<noteq> NA" by (auto simp: list_all_iff list_ex_iff)
    then obtain j where j: "j < length r" "r ! j \<noteq> NA" by (auto simp: in_set_conv_nth)
    from assms(1) r have "length r = length (columns f)" by (simp add: rect_def list_all_iff)
    with j r have "j \<in> set keep" by (auto simp: keep_def list_ex_iff)
    with j show ?thesis by (auto simp: list_ex_iff)
  qed
  then show ?thesis by (simp add: rows list_all_iff)
qed

lemma dropna_columns_cols_nonblank:
  assumes "k < length (columns (dropna_columns f))"
  shows "list_ex (\<lambda>r. r ! k \<noteq> NA) (rows (dropna_columns f))"
proof -
  define keep where
    "keep = filter (\<lambda>j. list_ex (\<lambda>r. r ! j \<noteq> NA) (rows f)) [0..<length (columns f)]"
  have rows: "rows (dropna_columns f) = map (\<lambda>r. map (\<lambda>j. r ! j) keep) (rows f)"
    and cols: "length (columns (dropna_columns f)) = length keep"
    by (simp_all add: dropna_columns_def keep_def Let_def)
  from assms cols have k: "k < length keep" by simp
  then have "keep ! k \<in> set keep" by simp
  then obtain r where r: "r \<in> set (rows f)" "r ! (keep ! k) \<noteq> NA"
    by (auto simp: keep_def list_ex_iff)
  with k have "map (\<lambda>j. r ! j) keep ! k \<noteq> NA" by simp
  with r(1) show ?thesis unfolding rows list_ex_iff by (intro bexI [of _ "map (\<lambda>j. r ! j) keep"]) auto
qed

lemma clean_Some:
  assumes "rect df" and "clean df = Some t"
  shows "rect t \<and> rows t \<noteq> [] \<and> columns t \<noteq> []
         \<and> list_all (\<lambda>r. list_ex (\<lambda>c. c \<noteq> NA) r) (rows t)
         \<and> (\<forall>k<length (columns t). list_ex (\<lambda>r. r ! k \<noteq> NA) (rows t))
         \<and> list_all (\<lambda>c. strip c = c) (columns t)"
proof -
  define d2 where "d2 = dropna_columns (dropna_rows df)"
  from assms(2) have t: "t = d2\<lparr>columns := map strip (columns d2)\<rparr>" and ne: "\<not> empty t"
    by (auto simp: clean_def Let_def d2_def split: if_splits)
  have r2: "rect d2" unfolding d2_def by (rule rect_dropna_columns)
  have "list_all (\<lambda>r. list_ex (\<lambda>c. c \<noteq> NA) r) (rows d2)"
    unfolding d2_def
    by (rule dropna_columns_rows_nonblank [OF rect_dropna_rows [OF assms(1)] dropna_rows_nonblank])
  moreover have "\<forall>k<length (columns d2). list_ex (\<lambda>r. r ! k \<noteq> NA) (rows d2)"
    unfolding d2_def by (simp add: dropna_columns_cols_nonblank)
  moreover have "list_all (\<lambda>c. strip c = c) (map strip (columns d2))"
    by (simp add: list_all_iff strip_strip)
  ultimately show ?thesis using r2 ne by (simp add: t empty_def rect_def)
qed

lemma clean_blank:
  assumes "list_all blank_row (rows df)"
  shows "clean df = None"
proof -
  from assms have "rows (dropna_rows df) = []"
    by (auto simp: dropna_rows_def filter_empty_conv list_all_iff list_ex_iff blank_row_def)
  then have "rows (dropna_columns (dropna_rows df)) = []"
    by (simp add: dropna_columns_def Let_def)
  then show ?thesis by (simp add: clean_def Let_def empty_def)
qed

lemma not_blank_row: "\<not> blank_row r \<longleftrightarrow> list_ex (\<lambda>c. c \<noteq> NA) r"
  by (auto simp: blank_row_def list_all_iff list_ex_iff)

lemma not_blank_column:
  "\<not> blank_row (column_values t k) \<longleftrightarrow> list_ex (\<lambda>r. r ! k \<noteq> NA) (rows t)"
  by (auto simp: blank_row_def column_values_def list_all_iff list_ex_iff)

lemma trimmed_strip: "strip c = c \<Longrightarrow> trimmed c"
  unfolding trimmed_def using strip_ends [of c] by simp

lemma read_file_cases:
  "read_file E p = Some t \<Longrightarrow>
     (\<exists>h df. read_csv E p h = Some df \<and> clean df = Some t)
     \<or> (\<exists>e h df. read_excel E e p h = Some df \<and> clean df = Some t)"
  by (auto simp: read_file_def Let_def split: if_splits option.splits)

text \<open>
  C5: a table the File Reader returns has no row and no column that is all missing, and
  its column names are trimmed; it has rows and columns. The reader returns nothing for
  an extension other than \<^verbatim>\<open>.csv\<close>, \<^verbatim>\<open>.xlsx\<close>, \<^verbatim>\<open>.xls\<close>, when the pandas reader raises,
  and when the file has only blank rows. The frames pandas hands over are rectangular.
\<close>

theorem read_file_clean:
  assumes "\<forall>h df. read_csv E p h = Some df \<longrightarrow> rect df"
      and "\<forall>e h df. read_excel E e p h = Some df \<longrightarrow> rect df"
  shows "(\<forall>t. read_file E p = Some t \<longrightarrow>
            rect t \<and> rows t \<noteq> [] \<and> columns t \<noteq> []
            \<and> list_all (\<lambda>r. \<not> blank_row r) (rows t)
            \<and> (\<forall>k<length (columns t). \<not> blank_row (column_values t k))
            \<and> list_all (\<lambda>c. trimmed c \<and> strip c = c) (columns t))
       \<and> (lower (splitext_ext p) \<notin> {''.csv'', ''.xlsx'', ''.xls''} \<longrightarrow> read_file E p = None)
       \<and> (lower (splitext_ext p) = ''.csv'' \<and> read_csv E p (detect_header_row E p) = None
            \<longrightarrow> read_file E p = None)
       \<and> (lower (splitext_ext p) = ''.xlsx''
            \<and> read_excel E Openpyxl p (detect_header_row E p) = None
            \<longrightarrow> read_file E p = None)
       \<and> (lower (splitext_ext p) = ''.xls'' \<and> read_excel E Xlrd p (detect_header_row E p) = None
            \<longrightarrow> read_file E p = None)
       \<and> (\<forall>df. (lower (splitext_ext p) = ''.csv''
                   \<and> read_csv E p (detect_header_row E p) = Some df
                 \<or> lower (splitext_ext p) = ''.xlsx''
                   \<and> read_excel E Openpyxl p (detect_header_row E p) = Some df
                 \<or> lower (splitext_ext p) = ''.xls''
                   \<and> read_excel E Xlrd p (detect_header_row E p) = Some df)
                \<and> list_all blank_row (rows df)
              \<longrightarrow> read_file E p = None)"
proof -
  have A: "rect t \<and> rows t \<noteq> [] \<and> columns t \<noteq> []
            \<and> list_all (\<lambda>r. \<not> blank_row r) (rows t)
            \<and> (\<forall>k<length (columns t). \<not> blank_row (column_values t k))
            \<and> list_all (\<lambda>c. trimmed c \<and> strip c = c) (columns t)"
    if t: "read_file E p = Some t" for t
  proof -
    from read_file_cases [OF t] assms obtain df where df: "rect df" "clean df = Some t"
      by blast
    from clean_Some [OF df]
    have c: "rect t" "rows t \<noteq> []" "columns t \<noteq> []"
      "list_all (\<lambda>r. list_ex (\<lambda>c. c \<noteq> NA) r) (rows t)"
      "\<forall>k<length (columns t). list_ex (\<lambda>r. r ! k \<noteq> NA) (rows t)"
      "list_all (\<lambda>c. strip c = c) (columns t)" by simp_all
    have "list_all (\<lambda>r. \<not> blank_row r) (rows t)" using c(4) by (simp add: not_blank_row)
    moreover have "\<forall>k<length (columns t). \<not> blank_row (column_values t k)"
      using c(5) by (simp add: not_blank_column)
    moreover have "list_all (\<lambda>c. trimmed c \<and> strip c = c) (columns t)"
      using c(6) by (auto simp: list_all_iff intro: trimmed_strip)
    ultimately show ?thesis using c(1-3) by simp
  qed
  have B: "read_file E p = None"
    if "lower (splitext_ext p) \<notin> {''.csv'', ''.xlsx'', ''.xls''}"
    using that by (simp add: read_file_def Let_def)
  have C: "read_file E p = None"
    if "lower (splitext_ext p) = ''.csv'' \<and> read_csv E p (detect_header_row E p) = None"
    using that by (simp add: read_file_def Let_def)
  have D: "read_file E p = None"
    if "lower (splitext_ext p) = ''.xlsx''
        \<and> read_excel E Openpyxl p (detect_header_row E p) = None"
    using that by (simp add: read_file_def Let_def)
  have D': "read_file E p = None"
    if "lower (splitext_ext p) = ''.xls'' \<and> read_excel E Xlrd p (detect_header_row E p) = None"
    using that by (simp add: read_file_def Let_def)
  have F: "read_file E p = None"
    if a: "(lower (splitext_ext p) = ''.csv''
                   \<and> read_csv E p (detect_header_row E p) = Some df
                 \<or> lower (splitext_ext p) = ''.xlsx''
                   \<and> read_excel E Openpyxl p (detect_header_row E p) = Some df
                 \<or> lower (splitext_ext p) = ''.xls''
                   \<and> read_excel E Xlrd p (detect_header_row E p) = Some df)
                \<and> list_all blank_row (rows df)" for df
  proof -
    from a have "clean df = None" by (intro clean_blank) simp
    with a show ?thesis by (auto simp: read_file_def Let_def)
  qed
  from A B C D D' F show ?thesis by blast
qed

lemma example_reads_rect:
  "(\<forall>h df. read_csv example_env p h = Some df \<longrightarrow> rect df)
   \<and> (\<forall>e h df. read_excel example_env e p h = Some df \<longrightarrow> rect df)"
  by (auto simp: example_env_def rect_def table_A_def table_B_def trades_frame_def aapl_def
      msft_def split: if_splits)

theorem read_file_clean_witness:
  "read_file example_env ''uploads/trades.csv'' = Some trades_clean
   \<and> list_all (\<lambda>r. \<not> blank_row r) (rows trades_clean)
   \<and> list_all (\<lambda>c. trimmed c \<and> strip c = c) (columns trades_clean)
   \<and> lower (splitext_ext ''uploads/notes.txt'') = ''.txt''
   \<and> read_file example_env ''uploads/notes.txt'' = None
   \<and> read_file example_env ''uploads/blank.csv'' = None"
proof -
  have t: "read_file example_env ''uploads/trades.csv'' = Some trades_clean" by code_simp
  have x: "lower (splitext_ext ''uploads/notes.txt'') = ''.txt''" by code_simp
  have b: "lower (splitext_ext ''uploads/blank.csv'') = ''.csv''
           \<and> read_csv example_env ''uploads/blank.csv''
                (detect_header_row example_env ''uploads/blank.csv'')
              = Some \<lparr>columns = [''symbol''], rows = [[NA]]\<rparr>
           \<and> list_all blank_row (rows \<lparr>columns = [''symbol''], rows = [[NA]]\<rparr>)" by code_simp
  from example_reads_rect [of "''uploads/trades.csv''"]
    read_file_clean [of example_env "''uploads/trades.csv''"] t
  have "list_all (\<lambda>r. \<not> blank_row r) (rows trades_clean)
        \<and> list_all (\<lambda>c. trimmed c \<and> strip c = c) (columns trades_clean)" by blast
  moreover from example_reads_rect [of "''uploads/notes.txt''"]
    read_file_clean [of example_env "''uploads/notes.txt''"] x
  have "read_file example_env ''uploads/notes.txt'' = None" by simp
  moreover from example_reads_rect [of "''uploads/blank.csv''"]
    read_file_clean [of example_env "''uploads/blank.csv''"] b
  have "read_file example_env ''uploads/blank.csv'' = None" by blast
  ultimately show ?thesis using t x by simp
qed

section \<open>Properties of the Merge Engine\<close>

subsection \<open>Queues and the reading loop\<close>

lemma push_Some:
  "progress_queues st j = Some q \<Longrightarrow>
     push j e st = st\<lparr>progress_queues := (progress_queues st)(j \<mapsto> q @ [e]),
                     history := history st @ [Put j e]\<rparr>"
  by (simp add: push_def)

lemma push_None: "progress_queues st j = None \<Longrightarrow> push j e st = st"
  by (simp add: push_def)

lemma output_files_push: "output_files (push j e st) = output_files st"
  by (simp add: push_def split: option.splits)

lemma progress_events_Cons:
  "progress_events idx n (fp # fps) =
     Progress idx n (basename fp) # progress_events (Suc idx) n fps"
  by (simp add: progress_events_def)

lemma progress_actions_Cons:
  "progress_actions j idx n (fp # fps) =
     Put j (Progress idx n (basename fp)) # ReadFile fp # progress_actions j (Suc idx) n fps"
  by (simp add: progress_actions_def)

lemma map_filter_Cons:
  "List.map_filter g (x # xs) =
     (case g x of None \<Rightarrow> List.map_filter g xs | Some y \<Rightarrow> y # List.map_filter g xs)"
  by (simp add: List.map_filter_def split: option.splits)

lemma read_files_registered:
  "progress_queues st j = Some q \<Longrightarrow>
     read_files E j n idx fps frames st =
       (frames @ List.map_filter (read_file E) fps,
        st\<lparr>progress_queues := (progress_queues st)(j \<mapsto> q @ progress_events idx n fps),
           history := history st @ progress_actions j idx n fps\<rparr>)"
proof (induction fps arbitrary: idx frames st q)
  case Nil
  then show ?case
    by (simp add: progress_events_def progress_actions_def List.map_filter_def fun_upd_idem)
next
  case (Cons fp fps)
  define st2 where
    "st2 = st\<lparr>progress_queues := (progress_queues st)(j \<mapsto> q @ [Progress idx n (basename fp)]),
              history := history st @ [Put j (Progress idx n (basename fp)), ReadFile fp]\<rparr>"
  have q2: "progress_queues st2 j = Some (q @ [Progress idx n (basename fp)])"
    by (simp add: st2_def)
  have step: "read_files E j n idx (fp # fps) frames st =
      read_files E j n (Suc idx) fps
        (case read_file E fp of None \<Rightarrow> frames | Some df \<Rightarrow> frames @ [df]) st2"
    by (simp add: Let_def push_Some [OF Cons.prems] st2_def)
  show ?case
    unfolding step Cons.IH [OF q2]
    by (simp add: st2_def progress_events_Cons progress_actions_Cons map_filter_Cons
        fun_upd_def split: option.splits cong: if_cong)
qed

lemma read_files_frames:
  "fst (read_files E j n idx fps frames st) = frames @ List.map_filter (read_file E) fps"
proof (induction fps arbitrary: idx frames st)
  case Nil
  show ?case by (simp add: List.map_filter_def)
next
  case (Cons fp fps)
  show ?case
    by (simp add: Let_def Cons.IH map_filter_Cons split: option.splits)
qed

lemma read_files_output:
  "output_files (snd (read_files E j n idx fps frames st)) = output_files st"
proof (induction fps arbitrary: idx frames st)
  case Nil
  show ?case by simp
next
  case (Cons fp fps)
  show ?case by (simp add: Let_def Cons.IH output_files_push)
qed

subsection \<open>Keeping first occurrences\<close>

lemma set_keep_first: "set (keep_first seen xs) = set xs - set seen"
  by (induction xs arbitrary: seen) auto

lemma distinct_keep_first: "distinct (keep_first seen xs)"
  by (induction xs arbitrary: seen) (auto simp: set_keep_first)

lemma length_keep_first: "length (keep_first seen xs) \<le> length xs"
  by (induction xs arbitrary: seen) (auto intro: le_SucI)

lemma keep_first_id:
  "distinct xs \<Longrightarrow> set xs \<inter> set seen = {} \<Longrightarrow> keep_first seen xs = xs"
  by (induction xs arbitrary: seen) auto

lemma length_keep_first_eq:
  "length (keep_first seen xs) = length xs \<longleftrightarrow> distinct xs \<and> set xs \<inter> set seen = {}"
proof
  assume "length (keep_first seen xs) = length xs"
  then show "distinct xs \<and> set xs \<inter> set seen = {}"
  proof (induction xs arbitrary: seen)
    case Nil
    show ?case by simp
  next
    case (Cons x xs)
    show ?case
    proof (cases "x \<in> set seen")
      case True
      with Cons.prems have "length (keep_first seen xs) = Suc (length xs)" by simp
      with length_keep_first [of seen xs] show ?thesis by simp
    next
      case False
      with Cons.prems have "length (keep_first (x # seen) xs) = length xs" by simp
      from Cons.IH [OF this] False show ?thesis by auto
    qed
  qed
next
  assume "distinct xs \<and> set xs \<inter> set seen = {}"
  then show "length (keep_first seen xs) = length xs" by (simp add: keep_first_id)
qed

subsection \<open>The shape of a call of \<^verbatim>\<open>compile_files\<close>\<close>

lemma compile_files_unfold:
  "compile_files E fps acct j st =
     (let frames = read_tables E fps;
          st1 = snd (read_files E j (length fps) 1 fps [] st)
      in if frames = [] then (Inr (None, 0, 0), push j (Error no_data_message) st1)
         else
           case concat_frames frames of
             Inl e \<Rightarrow> (Inl e, st1)
           | Inr c0 \<Rightarrow>
               let c1 = drop_duplicates c0;
                   T = sort_loop E (columns c1) c1;
                   out = path_join (OUTPUT_DIR E) (output_filename acct)
               in (Inr (Some out, length (rows T), length (rows c0) - length (rows c1)),
                   push j (Done (length (rows T)) (length (rows c0) - length (rows c1))
                             (basename out))
                     (st1\<lparr>output_files := (output_files st1)(out \<mapsto> T),
                          history := history st1 @ [WriteCsv out]\<rparr>)))"
proof -
  have f: "fst (read_files E j n i fps [] st) = read_tables E fps" for n i
    by (simp add: read_files_frames read_tables_def)
  show ?thesis
    unfolding compile_files_def
    by (simp add: case_prod_beta f Let_def no_data_message_def split: sum.splits)
qed

lemma compile_files_none:
  assumes "read_tables E fps = []"
  shows "compile_files E fps acct j st =
           (Inr (None, 0, 0),
            push j (Error no_data_message) (snd (read_files E j (length fps) 1 fps [] st)))"
  by (simp add: compile_files_unfold assms)

lemma compile_files_raise:
  assumes "read_tables E fps \<noteq> []" and "concat_frames (read_tables E fps) = Inl e"
  shows "compile_files E fps acct j st = (Inl e, snd (read_files E j (length fps) 1 fps [] st))"
  by (simp add: compile_files_unfold assms)

lemma concat_frames_Inr_nonempty: "concat_frames frames = Inr c \<Longrightarrow> frames \<noteq> []"
  by (auto simp: concat_frames_def)

lemma compile_files_merge:
  assumes "concat_frames (read_tables E fps) = Inr c0"
  shows "compile_files E fps acct j st =
     (let st1 = snd (read_files E j (length fps) 1 fps [] st);
          c1 = drop_duplicates c0;
          T = sort_loop E (columns c1) c1;
          out = path_join (OUTPUT_DIR E) (output_filename acct)
      in (Inr (Some out, length (rows T), length (rows c0) - length (rows c1)),
          push j (Done (length (rows T)) (length (rows c0) - length (rows c1)) (basename out))
            (st1\<lparr>output_files := (output_files st1)(out \<mapsto> T),
                 history := history st1 @ [WriteCsv out]\<rparr>)))"
  using concat_frames_Inr_nonempty [OF assms]
  by (simp add: compile_files_unfold assms Let_def)

lemma compile_files_cases:
  obtains
    (none) "read_tables E fps = []"
  | (raise) e where "read_tables E fps \<noteq> []" "concat_frames (read_tables E fps) = Inl e"
  | (merge) c0 where "concat_frames (read_tables E fps) = Inr c0"
proof (cases "read_tables E fps = []")
  case True
  then show ?thesis by (rule none)
next
  case False
  show ?thesis
  proof (cases "concat_frames (read_tables E fps)")
    case (Inl e)
    with False show ?thesis by (rule raise)
  next
    case (Inr c0)
    then show ?thesis by (rule merge)
  qed
qed

lemma read_tables_empty:
  "read_tables E fps = [] \<longleftrightarrow> list_all (\<lambda>fp. read_file E fp = None) fps"
  by (induction fps) (auto simp: read_tables_def map_filter_Cons split: option.splits)

lemma length_concat_frames:
  assumes "concat_frames frames = Inr c"
  shows "length (rows c) = sum_list (map (\<lambda>f. length (rows f)) frames)"
proof -
  from assms obtain cols where
    c: "rows c = concat (map (\<lambda>f. if columns f = cols then rows f
                                  else map (reindex (columns f) cols) (rows f)) frames)"
    by (auto simp: concat_frames_def Let_def split: if_splits)
  have "length (concat (map (\<lambda>f. if columns f = cols then rows f
                                  else map (reindex (columns f) cols) (rows f)) fs))
        = sum_list (map (\<lambda>f. length (rows f)) fs)" for fs
    by (induction fs) auto
  then show ?thesis by (simp add: c)
qed

subsection \<open>The sort step\<close>

lemma columns_setitem: "columns (setitem f j vs) = columns f"
  by (simp add: setitem_def)

lemma length_rows_setitem: "length (rows (setitem f j vs)) = length (rows f)"
  by (simp add: setitem_def)

lemma nth_rows_setitem:
  "i < length (rows f) \<Longrightarrow>
     rows (setitem f j vs) ! i = (rows f ! i)[j := (if i < length vs then vs ! i else NA)]"
  by (simp add: setitem_def nth_enumerate_eq)

lemma rows_setitem_map:
  "rows (setitem f j vs) =
     map (\<lambda>i. (rows f ! i)[j := (if i < length vs then vs ! i else NA)]) [0..<length (rows f)]"
  by (rule nth_equalityI) (simp_all add: length_rows_setitem nth_rows_setitem)

lemma rect_setitem: "rect f \<Longrightarrow> rect (setitem f j vs)"
  by (auto simp: rect_def list_all_iff rows_setitem_map columns_setitem)

lemma columns_sort_values: "columns (sort_values j f) = columns f"
  by (simp add: sort_values_def)

lemma mset_rows_sort_values: "mset (rows (sort_values j f)) = mset (rows f)"
proof -
  have "mset (filter (\<lambda>r. r ! j \<noteq> NA) (rows f)) + mset (filter (\<lambda>r. r ! j = NA) (rows f))
        = mset (rows f)"
    by (induction "rows f") auto
  then show ?thesis by (simp add: sort_values_def)
qed

lemma length_rows_sort_values: "length (rows (sort_values j f)) = length (rows f)"
  using mset_rows_sort_values [of j f] by (metis size_mset)

lemma time_le_Ts_NA: "time_le c NA"
  by (cases c) simp_all

lemma sorted_sort_values:
  assumes "list_all (\<lambda>r. r ! j = NA \<or> (\<exists>t. r ! j = Ts t)) (rows f)"
  shows "sorted_wrt time_le (column_values (sort_values j f) j)"
proof -
  define ys where "ys = sort_key (\<lambda>r. ts_key (r ! j)) (filter (\<lambda>r. r ! j \<noteq> NA) (rows f))"
  define zs where "zs = filter (\<lambda>r. r ! j = NA) (rows f)"
  have cv: "column_values (sort_values j f) j = map (\<lambda>r. r ! j) ys @ map (\<lambda>r. r ! j) zs"
    by (simp add: column_values_def sort_values_def ys_def zs_def)
  have ts: "\<exists>t. r ! j = Ts t" if "r \<in> set ys" for r
    using that assms by (auto simp: ys_def list_all_iff)
  have "sorted (map (\<lambda>r. ts_key (r ! j)) ys)" unfolding ys_def by (rule sorted_sort_key)
  then have "sorted_wrt (\<lambda>x y. ts_key (x ! j) \<le> ts_key (y ! j)) ys"
    by (simp add: sorted_wrt_map)
  then have "sorted_wrt (\<lambda>x y. time_le (x ! j) (y ! j)) ys"
  proof (rule sorted_wrt_mono_rel [rotated])
    fix x y assume "x \<in> set ys" "y \<in> set ys" "ts_key (x ! j) \<le> ts_key (y ! j)"
    with ts [of x] ts [of y] show "time_le (x ! j) (y ! j)" by auto
  qed
  then have a: "sorted_wrt time_le (map (\<lambda>r. r ! j) ys)" by (simp add: sorted_wrt_map)
  have na: "r ! j = NA" if "r \<in> set zs" for r using that by (simp add: zs_def)
  have "sorted_wrt (\<lambda>x y. time_le (x ! j) (y ! j)) zs"
    by (rule sorted_wrt_mono_rel [of zs "\<lambda>x y. True"]) (simp_all add: na)
  then have b: "sorted_wrt time_le (map (\<lambda>r. r ! j) zs)" by (simp add: sorted_wrt_map)
  have c: "time_le x y" if "x \<in> set (map (\<lambda>r. r ! j) ys)" "y \<in> set (map (\<lambda>r. r ! j) zs)" for x y
    using that na by (auto simp: time_le_Ts_NA)
  from a b c show ?thesis unfolding cv sorted_wrt_append by blast
qed

lemma col_pos_less: "col \<in> set cols \<Longrightarrow> col_pos cols col < length cols"
  by (induction cols) (auto simp: col_pos_def)

lemma col_pos_append: "col \<notin> set pre \<Longrightarrow> col_pos (pre @ col # post) col = length pre"
  by (induction pre) (auto simp: col_pos_def)

lemma count_list_1_mem: "count_list cols col = 1 \<Longrightarrow> col \<in> set cols"
  by (metis count_list_0_iff zero_neq_one)

lemma count_list_1_not_before:
  "count_list (pre @ col # post) col = 1 \<Longrightarrow> col \<notin> set pre"
  by (auto simp: count_list_0_iff)


lemma try_sort_SomeD:
  assumes "try_sort E col f = Some g"
  obtains ts where "count_list (columns f) col = 1"
    and "to_datetime E (column_values f (col_pos (columns f) col)) = Some ts"
    and "g = sort_values (col_pos (columns f) col)
               (setitem f (col_pos (columns f) col) (map ts_cell ts))"
  using assms by (auto simp: try_sort_def Let_def split: if_splits option.splits)

lemma ts_cell_cases: "ts_cell v = NA \<or> (\<exists>t. ts_cell v = Ts t)"
  by (cases v) simp_all

lemma setitem_times:
  assumes "rect f" and "j < length (columns f)"
  shows "list_all (\<lambda>r. r ! j = NA \<or> (\<exists>t. r ! j = Ts t)) (rows (setitem f j (map ts_cell ts)))"
proof -
  have "(rows f ! i)[j := v] ! j = v" if "i < length (rows f)" for i v
  proof -
    from that assms(1) have "length (rows f ! i) = length (columns f)"
      by (simp add: rect_def list_all_length)
    with assms(2) show ?thesis by simp
  qed
  then show ?thesis
    by (auto simp: rows_setitem_map list_all_iff ts_cell_cases)
qed


lemma sort_loop_first:
  assumes "is_candidate c" and "try_sort E c f = Some g"
      and "\<forall>c' \<in> set pre. is_candidate c' \<longrightarrow> try_sort E c' f = None"
  shows "sort_loop E (pre @ c # post) f = g"
  using assms by (induction pre) auto

lemma sort_loop_length: "length (rows (sort_loop E cols f)) = length (rows f)"
proof (induction cols)
  case Nil
  show ?case by simp
next
  case (Cons c cols)
  show ?case
  proof (cases "is_candidate c \<and> try_sort E c f \<noteq> None")
    case True
    then obtain g where g: "try_sort E c f = Some g" by auto
    from g have "length (rows g) = length (rows f)"
      by (elim try_sort_SomeD) (simp add: length_rows_sort_values length_rows_setitem)
    with True g show ?thesis by simp
  next
    case False
    with Cons.IH show ?thesis by auto
  qed
qed

lemma sort_loop_columns: "columns (sort_loop E cols f) = columns f"
proof (induction cols)
  case Nil
  show ?case by simp
next
  case (Cons c cols)
  show ?case
  proof (cases "is_candidate c \<and> try_sort E c f \<noteq> None")
    case True
    then obtain g where g: "try_sort E c f = Some g" by auto
    from g have "columns g = columns f"
      by (elim try_sort_SomeD) (simp add: columns_sort_values columns_setitem)
    with True g show ?thesis by simp
  next
    case False
    with Cons.IH show ?thesis by auto
  qed
qed

lemma no_candidate_symbol_qty_price:
  "\<not> is_candidate ''symbol'' \<and> \<not> is_candidate ''qty'' \<and> \<not> is_candidate ''price''"
  by code_simp

lemma aapl_neq_msft: "aapl \<noteq> msft"
  by (simp add: aapl_def msft_def)

text \<open>
  C1: the example of the specification. Whatever the surroundings, if the File Reader
  yields table A (AAPL twice) for the first path and table B (AAPL, MSFT) for the second,
  under the columns symbol, qty, price, none of which is a candidate for the sort, then
  \<^verbatim>\<open>compile_files\<close> writes exactly the rows AAPL, MSFT in that order and returns 2 rows and
  2 duplicates removed.
\<close>

theorem compile_example:
  assumes "read_file E a = Some table_A" and "read_file E b = Some table_B"
  shows "fst (compile_files E [a, b] acct j st)
           = Inr (Some (path_join (OUTPUT_DIR E) (output_filename acct)), 2, 2)
         \<and> output_files (snd (compile_files E [a, b] acct j st))
             (path_join (OUTPUT_DIR E) (output_filename acct))
           = Some \<lparr>columns = [''symbol'', ''qty'', ''price''], rows = [aapl, msft]\<rparr>"
proof -
  let ?cols = "[''symbol'', ''qty'', ''price'']"
  have rt: "read_tables E [a, b] = [table_A, table_B]"
    by (simp add: read_tables_def map_filter_Cons assms List.map_filter_def)
  have cc: "concat_frames [table_A, table_B]
              = Inr \<lparr>columns = ?cols, rows = [aapl, aapl, aapl, msft]\<rparr>"
    by (simp add: concat_frames_def table_A_def table_B_def)
  have dd: "drop_duplicates \<lparr>columns = ?cols, rows = [aapl, aapl, aapl, msft]\<rparr>
              = \<lparr>columns = ?cols, rows = [aapl, msft]\<rparr>"
    using aapl_neq_msft by (simp add: drop_duplicates_def)
  have ss: "sort_loop E ?cols \<lparr>columns = ?cols, rows = [aapl, msft]\<rparr>
              = \<lparr>columns = ?cols, rows = [aapl, msft]\<rparr>"
    using no_candidate_symbol_qty_price by simp
  from cc rt have m: "concat_frames (read_tables E [a, b])
              = Inr \<lparr>columns = ?cols, rows = [aapl, aapl, aapl, msft]\<rparr>" by simp
  show ?thesis
    unfolding compile_files_merge [OF m]
    by (simp add: Let_def dd ss output_files_push del: sort_loop.simps)
qed

theorem compile_example_witness:
  "read_file example_env ''uploads/A.csv'' = Some table_A
   \<and> read_file example_env ''uploads/B.csv'' = Some table_B
   \<and> fst (compile_files example_env [''uploads/A.csv'', ''uploads/B.csv''] ''Sim-101''
            ''job-1'' example_state)
       = Inr (Some ''/srv/app/output/Sim-101_compiled.csv'', 2, 2)
   \<and> output_files (snd (compile_files example_env [''uploads/A.csv'', ''uploads/B.csv'']
                          ''Sim-101'' ''job-1'' example_state))
        ''/srv/app/output/Sim-101_compiled.csv''
       = Some \<lparr>columns = [''symbol'', ''qty'', ''price''], rows = [aapl, msft]\<rparr>"
proof -
  have a: "read_file example_env ''uploads/A.csv'' = Some table_A" by code_simp
  have b: "read_file example_env ''uploads/B.csv'' = Some table_B" by code_simp
  have p: "path_join (OUTPUT_DIR example_env) (output_filename ''Sim-101'')
             = ''/srv/app/output/Sim-101_compiled.csv''" by code_simp
  from compile_example [OF a b, of "''Sim-101''" "''job-1''" example_state] a b
  show ?thesis unfolding p by simp
qed

text \<open>
  C6: when \<^verbatim>\<open>compile_files\<close> returns a path, the table written there has the returned
  number of rows, which is at most the sum of the row counts of the tables read, and equal
  to it exactly when the concatenation of those tables has no two equal rows; the returned
  count of duplicates is the difference.
\<close>

theorem merged_row_count:
  assumes "fst (compile_files E fps acct j st) = Inr (Some out, n, d)"
  shows "\<exists>c0 T. concat_frames (read_tables E fps) = Inr c0
           \<and> output_files (snd (compile_files E fps acct j st)) out = Some T
           \<and> length (rows T) = n
           \<and> length (rows c0) = sum_list (map (\<lambda>f. length (rows f)) (read_tables E fps))
           \<and> n \<le> sum_list (map (\<lambda>f. length (rows f)) (read_tables E fps))
           \<and> (n = sum_list (map (\<lambda>f. length (rows f)) (read_tables E fps))
                \<longleftrightarrow> distinct (rows c0))
           \<and> d = sum_list (map (\<lambda>f. length (rows f)) (read_tables E fps)) - n"
proof (cases rule: compile_files_cases [of E fps])
  case none
  with assms show ?thesis by (simp add: compile_files_none)
next
  case (raise e)
  with assms show ?thesis by (simp add: compile_files_raise)
next
  case (merge c0)
  define c1 where "c1 = drop_duplicates c0"
  define T where "T = sort_loop E (columns c1) c1"
  have len0: "length (rows c0) = sum_list (map (\<lambda>f. length (rows f)) (read_tables E fps))"
    by (rule length_concat_frames [OF merge])
  have lenT: "length (rows T) = length (keep_first [] (rows c0))"
    by (simp add: T_def sort_loop_length c1_def drop_duplicates_def)
  from assms have out: "out = path_join (OUTPUT_DIR E) (output_filename acct)"
    and n: "n = length (rows T)" and d: "d = length (rows c0) - length (rows c1)"
    by (simp_all add: compile_files_merge [OF merge] Let_def T_def c1_def)
  have written: "output_files (snd (compile_files E fps acct j st)) out = Some T"
    by (simp add: compile_files_merge [OF merge] Let_def output_files_push out T_def c1_def)
  have le: "n \<le> length (rows c0)"
    unfolding n lenT by (rule length_keep_first)
  have eq: "n = length (rows c0) \<longleftrightarrow> distinct (rows c0)"
    unfolding n lenT by (simp add: length_keep_first_eq)
  have d': "d = length (rows c0) - n"
    unfolding d n lenT by (simp add: c1_def drop_duplicates_def)
  from merge written n le eq d' len0 show ?thesis by auto
qed

theorem merged_row_count_witness:
  "fst (compile_files example_env [''uploads/A.csv'', ''uploads/B.csv'', ''uploads/blank.csv'']
          ''Sim-101'' ''job-1'' example_state)
     = Inr (Some ''/srv/app/output/Sim-101_compiled.csv'', 2, 2)
   \<and> read_tables example_env [''uploads/A.csv'', ''uploads/B.csv'', ''uploads/blank.csv'']
     = [table_A, table_B]
   \<and> (2::nat) \<le> sum_list (map (\<lambda>f. length (rows f)) [table_A, table_B])
   \<and> (\<exists>c0. concat_frames [table_A, table_B] = Inr c0 \<and> \<not> distinct (rows c0))"
proof -
  have r: "fst (compile_files example_env
                  [''uploads/A.csv'', ''uploads/B.csv'', ''uploads/blank.csv'']
                  ''Sim-101'' ''job-1'' example_state)
             = Inr (Some ''/srv/app/output/Sim-101_compiled.csv'', 2, 2)" by code_simp
  have t: "read_tables example_env [''uploads/A.csv'', ''uploads/B.csv'', ''uploads/blank.csv'']
             = [table_A, table_B]" by code_simp
  have s: "sum_list (map (\<lambda>f. length (rows f)) [table_A, table_B]) = 4"
    by (simp add: table_A_def table_B_def)
  from merged_row_count [OF r] obtain c0 where
    "concat_frames [table_A, table_B] = Inr c0"
    "(2::nat) \<le> sum_list (map (\<lambda>f. length (rows f)) [table_A, table_B])"
    "(2 = sum_list (map (\<lambda>f. length (rows f)) [table_A, table_B])) \<longleftrightarrow> distinct (rows c0)"
    unfolding t by blast
  with r t s show ?thesis by auto
qed

text \<open>
  C2: when the File Reader returns no table for any of the paths, \<^verbatim>\<open>compile_files\<close>
  returns \<^verbatim>\<open>(None, 0, 0)\<close>, writes nothing, and puts on the job's queue, after the progress
  events, one error event with the fixed message and no other error event. The job has
  its queue, as \<^verbatim>\<open>compile_route\<close> registers it before the call.
\<close>

theorem compile_no_data:
  assumes "list_all (\<lambda>fp. read_file E fp = None) fps"
      and "progress_queues st j = Some q"
  shows "\<exists>st'. compile_files E fps acct j st = (Inr (None, 0, 0), st')
           \<and> progress_queues st' j
               = Some (q @ progress_events 1 (length fps) fps @ [Error no_data_message])
           \<and> filter is_error (progress_events 1 (length fps) fps @ [Error no_data_message])
               = [Error no_data_message]
           \<and> no_data_message = ''No readable data found in the selected files.''
           \<and> output_files st' = output_files st
           \<and> history st'
               = history st @ progress_actions j 1 (length fps) fps
                   @ [Put j (Error no_data_message)]
           \<and> filter is_write (progress_actions j 1 (length fps) fps
                                @ [Put j (Error no_data_message)]) = []"
proof -
  from assms(1) have e: "read_tables E fps = []" by (simp add: read_tables_empty)
  have noerr: "filter is_error (progress_events i n xs) = []" for i n xs
    by (induction xs arbitrary: i) (simp_all add: progress_events_def)
  have nowr: "filter is_write (progress_actions j i n xs) = []" for i n xs
    by (induction xs arbitrary: i) (simp_all add: progress_actions_def)
  show ?thesis
    unfolding compile_files_none [OF e] read_files_registered [OF assms(2)]
    by (simp add: push_def noerr nowr no_data_message_def)
qed

theorem compile_no_data_witness:
  "list_all (\<lambda>fp. read_file example_env fp = None) [''uploads/blank.csv'', ''uploads/notes.txt'']
   \<and> progress_queues example_state ''job-1'' = Some []
   \<and> fst (compile_files example_env [''uploads/blank.csv'', ''uploads/notes.txt''] ''Sim-101''
            ''job-1'' example_state) = Inr (None, 0, 0)
   \<and> progress_queues (snd (compile_files example_env
                              [''uploads/blank.csv'', ''uploads/notes.txt''] ''Sim-101''
                              ''job-1'' example_state)) ''job-1''
       = Some [Progress 1 2 ''blank.csv'', Progress 2 2 ''notes.txt'',
               Error ''No readable data found in the selected files.'']
   \<and> output_files (snd (compile_files example_env
                           [''uploads/blank.csv'', ''uploads/notes.txt''] ''Sim-101''
                           ''job-1'' example_state)) = Map.empty"
proof -
  have h: "list_all (\<lambda>fp. read_file example_env fp = None)
             [''uploads/blank.csv'', ''uploads/notes.txt'']" by code_simp
  have q: "progress_queues example_state ''job-1'' = Some []"
    by (simp add: example_state_def)
  have ev: "progress_events 1 (length [''uploads/blank.csv'', ''uploads/notes.txt''])
              [''uploads/blank.csv'', ''uploads/notes.txt'']
            = [Progress 1 2 ''blank.csv'', Progress 2 2 ''notes.txt'']" by code_simp
  have o: "output_files example_state = Map.empty" by (simp add: example_state_def)
  from compile_no_data [OF h q, of "''Sim-101''"] h q
  show ?thesis unfolding ev o by auto
qed

subsection \<open>The table written\<close>

lemma try_sort_sorted:
  assumes "rect f" and "try_sort E c f = Some g"
  shows "columns g = columns f
         \<and> sorted_wrt time_le (column_values g (col_pos (columns f) c))
         \<and> (\<exists>ts. to_datetime E (column_values f (col_pos (columns f) c)) = Some ts
               \<and> mset (rows g)
                   = mset (rows (setitem f (col_pos (columns f) c) (map ts_cell ts))))"
proof -
  define jp where "jp = col_pos (columns f) c"
  from assms(2) obtain ts where one: "count_list (columns f) c = 1"
    and ts: "to_datetime E (column_values f jp) = Some ts"
    and g: "g = sort_values jp (setitem f jp (map ts_cell ts))"
    unfolding jp_def by (rule try_sort_SomeD)
  from one have "jp < length (columns f)"
    unfolding jp_def by (intro col_pos_less count_list_1_mem)
  then have "jp < length (columns (setitem f jp (map ts_cell ts)))"
    by (simp add: columns_setitem)
  from setitem_times [OF assms(1) \<open>jp < length (columns f)\<close>]
  have "sorted_wrt time_le (column_values g jp)"
    unfolding g by (rule sorted_sort_values)
  moreover have "columns g = columns f"
    by (simp add: g columns_sort_values columns_setitem)
  moreover have "mset (rows g) = mset (rows (setitem f jp (map ts_cell ts)))"
    by (simp add: g mset_rows_sort_values)
  ultimately show ?thesis using ts unfolding jp_def by blast
qed




lemma nth_update_other: "k \<noteq> j \<Longrightarrow> xs[j := v] ! k = xs ! k"
  by simp

text \<open>
  C10: when the sort step succeeds on a column, the table \<^verbatim>\<open>compile_files\<close> writes is the
  deduplicated table with, in every row, the cell of that column replaced by the parsed
  timestamp of its value (\<^verbatim>\<open>pd.to_datetime\<close> returns one per row) and every other cell as
  it was, the rows reordered, under the same columns.
\<close>

theorem compile_writes_parsed_timestamps:
  assumes "concat_frames (read_tables E fps) = Inr c0"
      and "f = drop_duplicates c0"
      and "rect f"
      and "columns f = pre @ col # post"
      and "is_candidate col"
      and "\<forall>c \<in> set pre. is_candidate c \<longrightarrow> try_sort E c f = None"
      and "try_sort E col f = Some g"
  shows "\<exists>ts. to_datetime E (column_values f (length pre)) = Some ts
           \<and> output_files (snd (compile_files E fps acct j st))
                (path_join (OUTPUT_DIR E) (output_filename acct)) = Some g
           \<and> columns g = columns f
           \<and> mset (rows g)
               = mset (map (\<lambda>i. (rows f ! i)[length pre :=
                                     (if i < length ts then ts_cell (ts ! i) else NA)])
                           [0..<length (rows f)])
           \<and> list_all (\<lambda>r. \<exists>i<length (rows f).
                              r ! length pre = (if i < length ts then ts_cell (ts ! i) else NA)
                              \<and> (\<forall>k. k \<noteq> length pre \<longrightarrow> r ! k = rows f ! i ! k))
                       (rows g)"
proof -
  define jp where "jp = length pre"
  from assms(7) have "count_list (columns f) col = 1" by (rule try_sort_SomeD)
  then have "col \<notin> set pre" unfolding assms(4) by (rule count_list_1_not_before)
  then have jp: "col_pos (columns f) col = jp"
    unfolding assms(4) jp_def by (rule col_pos_append)
  have jl: "jp < length (columns f)" by (simp add: assms(4) jp_def)
  from try_sort_sorted [OF assms(3,7)] obtain ts where
    cg: "columns g = columns f"
    and ts: "to_datetime E (column_values f jp) = Some ts"
    and ms: "mset (rows g) = mset (rows (setitem f jp (map ts_cell ts)))"
    unfolding jp by blast
  define new where
    "new = (\<lambda>i. (rows f ! i)[jp := (if i < length ts then ts_cell (ts ! i) else NA)])"
  have rs: "rows (setitem f jp (map ts_cell ts)) = map new [0..<length (rows f)]"
    unfolding rows_setitem_map new_def by (rule map_cong) auto
  have loop: "sort_loop E (columns f) f = g"
    unfolding assms(4) using assms(5,7,6) by (rule sort_loop_first)
  have written: "output_files (snd (compile_files E fps acct j st))
                   (path_join (OUTPUT_DIR E) (output_filename acct)) = Some g"
    using loop
    by (simp add: compile_files_merge [OF assms(1)] Let_def output_files_push
        assms(2) [symmetric])
  have each: "\<exists>i<length (rows f).
                 r ! jp = (if i < length ts then ts_cell (ts ! i) else NA)
                 \<and> (\<forall>k. k \<noteq> jp \<longrightarrow> r ! k = rows f ! i ! k)"
    if "r \<in> set (rows g)" for r
  proof -
    from that ms rs have "r \<in> set (map new [0..<length (rows f)])"
      by (metis set_mset_mset)
    then obtain i where i: "i < length (rows f)" "r = new i" by auto
    from i(1) assms(3) jl have "jp < length (rows f ! i)"
      by (simp add: rect_def list_all_length)
    then have "new i ! jp = (if i < length ts then ts_cell (ts ! i) else NA)"
      by (simp add: new_def)
    moreover have "\<forall>k. k \<noteq> jp \<longrightarrow> new i ! k = rows f ! i ! k"
      by (simp add: new_def)
    ultimately show ?thesis using i by blast
  qed
  from ts written cg ms rs each show ?thesis
    unfolding jp_def [symmetric] new_def list_all_iff by auto
qed

lemma trades_clean_read: "read_tables example_env [''uploads/trades.csv''] = [trades_clean]"
  by code_simp

theorem compile_writes_parsed_timestamps_witness:
  "concat_frames (read_tables example_env [''uploads/trades.csv'']) = Inr trades_clean
   \<and> trades_clean = drop_duplicates trades_clean
   \<and> rect trades_clean
   \<and> is_candidate ''Entry time''
   \<and> try_sort example_env ''Entry time'' trades_clean = Some trades_sorted
   \<and> output_files (snd (compile_files example_env [''uploads/trades.csv''] ''Sim-101''
                          ''job-1'' example_state))
        ''/srv/app/output/Sim-101_compiled.csv'' = Some trades_sorted
   \<and> column_values trades_clean 2 = [Str ''2024-01-03'', Str ''2024-01-02'']
   \<and> column_values trades_sorted 2 = [Ts 1704153600000000000, Ts 1704240000000000000]
   \<and> column_values trades_sorted 3 = [Str ''2024-01-05'', Str ''2024-01-04'']"
proof -
  have m: "concat_frames (read_tables example_env [''uploads/trades.csv'']) = Inr trades_clean"
    by code_simp
  have d: "trades_clean = drop_duplicates trades_clean" by code_simp
  have r: "rect trades_clean" by code_simp
  have c: "columns trades_clean
             = [''Instrument'', ''Entry name''] @ ''Entry time'' # [''Exit time'', ''Qty'']"
    by (simp add: trades_clean_def)
  have k: "is_candidate ''Entry time''" by code_simp
  have g: "try_sort example_env ''Entry time'' trades_clean = Some trades_sorted" by code_simp
  have n1: "\<not> is_candidate ''Instrument''" by code_simp
  have n2: "try_sort example_env ''Entry name'' trades_clean = None" by code_simp
  have p: "\<forall>c' \<in> set [''Instrument'', ''Entry name''].
             is_candidate c' \<longrightarrow> try_sort example_env c' trades_clean = None"
    using n1 n2 by simp
  have o: "path_join (OUTPUT_DIR example_env) (output_filename ''Sim-101'')
             = ''/srv/app/output/Sim-101_compiled.csv''" by code_simp
  have v: "column_values trades_clean 2 = [Str ''2024-01-03'', Str ''2024-01-02'']
           \<and> column_values trades_sorted 2 = [Ts 1704153600000000000, Ts 1704240000000000000]
           \<and> column_values trades_sorted 3 = [Str ''2024-01-05'', Str ''2024-01-04'']"
    by code_simp
  from compile_writes_parsed_timestamps [OF m d r c k p g, of "''Sim-101''" "''job-1''"
      example_state]
  have "output_files (snd (compile_files example_env [''uploads/trades.csv''] ''Sim-101''
                          ''job-1'' example_state))
        ''/srv/app/output/Sim-101_compiled.csv'' = Some trades_sorted"
    unfolding o by blast
  with m d r k g v show ?thesis by blast
qed

subsection \<open>The output name\<close>

lemma strip_decompose:
  "\<exists>pre post. s = pre @ strip s @ post \<and> list_all isspace pre \<and> list_all isspace post"
proof -
  define u where "u = dropWhile isspace s"
  have s: "s = takeWhile isspace s @ u" by (simp add: u_def)
  have "rev (takeWhile isspace (rev u) @ dropWhile isspace (rev u)) = u"
    by (simp only: takeWhile_dropWhile_id rev_rev_ident)
  then have "rev (dropWhile isspace (rev u)) @ rev (takeWhile isspace (rev u)) = u"
    by (simp only: rev_append)
  then have u: "u = strip s @ rev (takeWhile isspace (rev u))"
    by (simp add: strip_def u_def)
  have a: "list_all isspace (takeWhile isspace s)"
    by (auto simp: list_all_iff dest: set_takeWhileD)
  have b: "list_all isspace (rev (takeWhile isspace (rev u)))"
    by (auto simp: list_all_iff dest: set_takeWhileD)
  from s u have "s = takeWhile isspace s @ strip s @ rev (takeWhile isspace (rev u))" by simp
  with a b show ?thesis by blast
qed

lemma set_strip: "set (strip s) \<subseteq> set s"
proof -
  from strip_decompose [of s] obtain pre post where "s = pre @ strip s @ post" by blast
  then have "set s = set pre \<union> set (strip s) \<union> set post" by (metis set_append Un_assoc)
  then show ?thesis by blast
qed

lemma not_space_alnum: "isspace c \<Longrightarrow> \<not> isalnum c"
  unfolding isspace_def isalnum_def Let_def by linarith

lemma space_of_safe:
  assumes "isspace c" and "safe_char c \<or> c = CHR ''_''"
  shows "c = CHR '' ''"
proof -
  have "\<not> isspace CHR ''_''" "\<not> isspace CHR ''-''" by code_simp+
  with assms not_space_alnum [OF assms(1)] show ?thesis by (auto simp: safe_char_def)
qed

lemma safe_underscore: "safe_char CHR ''_''"
  by (simp add: safe_char_def)

lemma safe_char_mem: "safe_char c \<longleftrightarrow> isalnum c \<or> c \<in> set '' _-''"
  by (auto simp: safe_char_def)

lemma slash_not_safe: "\<not> safe_char CHR ''/''"
  by code_simp

lemma basename_path_join:
  assumes "CHR ''/'' \<notin> set b" and "b \<noteq> []"
  shows "basename (path_join d b) = b"
proof -
  from assms have ns: "\<not> startswith b ''/''" by (cases b) auto
  have tw: "takeWhile (\<lambda>c. c \<noteq> CHR ''/'') (rev b) = rev b"
    using assms(1) by (auto simp: takeWhile_eq_all_conv)
  have tw': "rev (takeWhile (\<lambda>c. c \<noteq> CHR ''/'') (rev b)) = b"
    by (simp only: tw rev_rev_ident)
  have slash: "basename (x @ ''/'' @ b) = b" for x
    by (simp add: basename_def takeWhile_tail tw')
  show ?thesis
  proof (cases "d = []")
    case True
    with ns tw' show ?thesis by (simp add: path_join_def basename_def)
  next
    case False
    show ?thesis
    proof (cases "last d = CHR ''/''")
      case True
      with False obtain d' where d': "d = d' @ ''/''" by (metis append_butlast_last_id)
      have "basename (d @ b) = basename (d' @ ''/'' @ b)" by (simp add: d')
      also have "\<dots> = b" by (rule slash)
      finally have "basename (d @ b) = b" .
      with ns False True show ?thesis by (simp add: path_join_def)
    next
      case l: False
      with slash [of d] ns False show ?thesis by (simp add: path_join_def)
    qed
  qed
qed

lemma safe_name_chars: "list_all safe_char (safe_name acct)"
proof -
  have "set (safe_name acct)
          \<subseteq> set (map (\<lambda>c. if isalnum c \<or> c \<in> set '' _-'' then c else CHR ''_'') acct)"
    unfolding safe_name_def by (rule set_strip)
  then show ?thesis
    by (auto simp: list_all_iff safe_char_def split: if_splits)
qed

text \<open>
  C7: the safe name is the label with every character that is not alphanumeric, a space,
  an underscore or a hyphen replaced by an underscore, then trimmed, which here removes
  spaces only; the file is named by it, under the output directory. The label of the
  specification's example gives the name of the example.
\<close>

theorem safe_name_sanitized:
  "safe_name acct = strip (map (\<lambda>c. if safe_char c then c else CHR ''_'') acct)
   \<and> list_all safe_char (safe_name acct)
   \<and> trimmed (safe_name acct)
   \<and> (\<exists>pre post. map (\<lambda>c. if safe_char c then c else CHR ''_'') acct
                      = pre @ safe_name acct @ post
                  \<and> list_all (\<lambda>c. c = CHR '' '') pre \<and> list_all (\<lambda>c. c = CHR '' '') post)
   \<and> safe_name ''My Account #1'' = ''My Account _1''
   \<and> output_filename ''My Account #1'' = ''My Account _1_compiled.csv''
   \<and> basename (path_join d (output_filename acct)) = output_filename acct
   \<and> (\<forall>E fps j st out n k.
         fst (compile_files E fps acct j st) = Inr (Some out, n, k)
         \<longrightarrow> out = path_join (OUTPUT_DIR E) (output_filename acct))"
proof -
  define m where "m = map (\<lambda>c. if safe_char c then c else CHR ''_'') acct"
  have A: "safe_name acct = strip m"
    by (simp add: safe_name_def m_def safe_char_mem)
  have B: "list_all safe_char (safe_name acct)" by (rule safe_name_chars)
  have C: "trimmed (safe_name acct)"
    unfolding A trimmed_def by (rule strip_ends)
  from strip_decompose [of m] obtain pre post where
    d: "m = pre @ strip m @ post" "list_all isspace pre" "list_all isspace post" by blast
  have mm: "safe_char c \<or> c = CHR ''_''" if "c \<in> set m" for c
    using that by (auto simp: m_def split: if_splits)
  have "c = CHR '' ''" if "c \<in> set pre \<union> set post" for c
  proof -
    from that d(1) have "c \<in> set m" by (metis Un_iff set_append)
    moreover from that d(2,3) have "isspace c" by (auto simp: list_all_iff)
    ultimately show ?thesis using mm space_of_safe by blast
  qed
  then have "list_all (\<lambda>c. c = CHR '' '') pre \<and> list_all (\<lambda>c. c = CHR '' '') post"
    by (simp add: list_all_iff)
  with d(1) have D: "\<exists>pre post. m = pre @ safe_name acct @ post
                  \<and> list_all (\<lambda>c. c = CHR '' '') pre \<and> list_all (\<lambda>c. c = CHR '' '') post"
    unfolding A by blast
  have F: "safe_name ''My Account #1'' = ''My Account _1''" by code_simp
  have G: "output_filename ''My Account #1'' = ''My Account _1_compiled.csv''" by code_simp
  have "CHR ''/'' \<notin> set (output_filename acct)"
    using B slash_not_safe by (auto simp: output_filename_def list_all_iff)
  moreover have "output_filename acct \<noteq> []" by (simp add: output_filename_def)
  ultimately have H: "basename (path_join d (output_filename acct)) = output_filename acct"
    by (rule basename_path_join)
  have I: "out = path_join (OUTPUT_DIR E) (output_filename acct)"
    if r: "fst (compile_files E fps acct j st) = Inr (Some out, n, k)" for E fps j st out n k
  proof (cases rule: compile_files_cases [of E fps])
    case none
    with r show ?thesis by (simp add: compile_files_none)
  next
    case (raise e)
    with r show ?thesis by (simp add: compile_files_raise)
  next
    case (merge c0)
    with r show ?thesis by (simp add: compile_files_merge Let_def)
  qed
  from A B C D F G H I show ?thesis unfolding m_def by blast
qed

theorem safe_name_sanitized_witness:
  "fst (compile_files example_env [''uploads/trades.csv''] ''My Account #1'' ''job-1''
          example_state)
     = Inr (Some ''/srv/app/output/My Account _1_compiled.csv'', 2, 0)
   \<and> ''/srv/app/output/My Account _1_compiled.csv''
     = path_join (OUTPUT_DIR example_env) (output_filename ''My Account #1'')
   \<and> basename ''/srv/app/output/My Account _1_compiled.csv'' = ''My Account _1_compiled.csv''"
proof -
  have r: "fst (compile_files example_env [''uploads/trades.csv''] ''My Account #1'' ''job-1''
                  example_state)
             = Inr (Some ''/srv/app/output/My Account _1_compiled.csv'', 2, 0)" by code_simp
  note T = safe_name_sanitized [of "''My Account #1''" "OUTPUT_DIR example_env"]
  from T have "\<forall>E fps j st out n k.
         fst (compile_files E fps ''My Account #1'' j st) = Inr (Some out, n, k)
         \<longrightarrow> out = path_join (OUTPUT_DIR E) (output_filename ''My Account #1'')" by blast
  with r have p: "''/srv/app/output/My Account _1_compiled.csv''
           = path_join (OUTPUT_DIR example_env) (output_filename ''My Account #1'')" by blast
  from T have "basename (path_join (OUTPUT_DIR example_env) (output_filename ''My Account #1''))
            = output_filename ''My Account #1''" by blast
  moreover from T have "output_filename ''My Account #1'' = ''My Account _1_compiled.csv''"
    by blast
  ultimately have b: "basename ''/srv/app/output/My Account _1_compiled.csv''
            = ''My Account _1_compiled.csv''" using p by simp
  from r p b show ?thesis by blast
qed

subsection \<open>The events of a call\<close>

lemma length_progress_events: "length (progress_events idx n fps) = length fps"
  by (simp add: progress_events_def)

lemma nth_progress_events:
  "i < length fps \<Longrightarrow>
     progress_events idx n fps ! i = Progress (idx + i) n (basename (fps ! i))"
  by (simp add: progress_events_def nth_enumerate_eq)

lemma nth_progress_actions:
  "i < length fps \<Longrightarrow>
     progress_actions j idx n fps ! (2 * i) = Put j (Progress (idx + i) n (basename (fps ! i)))
     \<and> progress_actions j idx n fps ! (2 * i + 1) = ReadFile (fps ! i)"
proof (induction fps arbitrary: idx i)
  case Nil
  then show ?case by simp
next
  case (Cons fp fps)
  show ?case
  proof (cases i)
    case 0
    then show ?thesis by (simp add: progress_actions_Cons)
  next
    case (Suc k)
    with Cons.prems have "k < length fps" by simp
    from Cons.IH [OF this, of "Suc idx"] Suc show ?thesis
      by (simp add: progress_actions_Cons)
  qed
qed

lemma compile_events:
  assumes "progress_queues st j = Some q"
  shows "\<exists>term rest.
           progress_queues (snd (compile_files E fps acct j st)) j
             = Some (q @ progress_events 1 (length fps) fps @ term)
           \<and> history (snd (compile_files E fps acct j st))
             = history st @ progress_actions j 1 (length fps) fps @ rest
           \<and> (fst (compile_files E fps acct j st) = Inr (None, 0, 0)
                \<and> term = [Error no_data_message] \<and> rest = [Put j (Error no_data_message)]
              \<or> (\<exists>out n d. fst (compile_files E fps acct j st) = Inr (Some out, n, d)
                    \<and> term = [Done n d (basename out)]
                    \<and> rest = [WriteCsv out, Put j (Done n d (basename out))])
              \<or> (\<exists>e. fst (compile_files E fps acct j st) = Inl e \<and> term = [] \<and> rest = []))"
proof (cases rule: compile_files_cases [of E fps])
  case none
  show ?thesis
    unfolding compile_files_none [OF none] read_files_registered [OF assms]
    by (simp add: push_def)
next
  case (raise e)
  show ?thesis
    unfolding compile_files_raise [OF raise] read_files_registered [OF assms]
    by simp
next
  case (merge c0)
  show ?thesis
    unfolding compile_files_merge [OF merge] read_files_registered [OF assms]
    by (simp add: push_def Let_def)
qed


text \<open>
  The events of a call whose job has its queue: one progress event per path, numbered
  from 1, each put just before the File Reader is called on its path; then, when the call
  returns, one terminal event, put last (after the write, for a done event). When
  \<^verbatim>\<open>pd.concat\<close> raises, the exception leaves \<^verbatim>\<open>compile_files\<close> and no terminal event is
  put.
\<close>

theorem compile_event_sequence:
  assumes "progress_queues st j = Some q"
  shows "(\<exists>term rest.
           progress_queues (snd (compile_files E fps acct j st)) j
             = Some (q @ progress_events 1 (length fps) fps @ term)
           \<and> history (snd (compile_files E fps acct j st))
             = history st @ progress_actions j 1 (length fps) fps @ rest
           \<and> (fst (compile_files E fps acct j st) = Inr (None, 0, 0)
                \<and> term = [Error no_data_message] \<and> rest = [Put j (Error no_data_message)]
              \<or> (\<exists>out n d. fst (compile_files E fps acct j st) = Inr (Some out, n, d)
                    \<and> term = [Done n d (basename out)]
                    \<and> rest = [WriteCsv out, Put j (Done n d (basename out))])
              \<or> (\<exists>e. fst (compile_files E fps acct j st) = Inl e \<and> term = [] \<and> rest = [])))
       \<and> length (progress_events 1 (length fps) fps) = length fps
       \<and> (\<forall>i<length fps.
             progress_events 1 (length fps) fps ! i
               = Progress (Suc i) (length fps) (basename (fps ! i))
             \<and> progress_actions j 1 (length fps) fps ! (2 * i)
               = Put j (Progress (Suc i) (length fps) (basename (fps ! i)))
             \<and> progress_actions j 1 (length fps) fps ! (2 * i + 1) = ReadFile (fps ! i))"
  using compile_events [OF assms, of E fps acct]
    nth_progress_events [of _ fps 1 "length fps"]
    nth_progress_actions [of _ fps j 1 "length fps"]
  by (simp add: length_progress_events)

theorem compile_event_sequence_witness:
  "progress_queues example_state ''job-1'' = Some []
   \<and> fst (compile_files example_env [''uploads/blank.csv'', ''uploads/trades.csv''] ''Sim-101''
            ''job-1'' example_state)
       = Inr (Some ''/srv/app/output/Sim-101_compiled.csv'', 2, 0)
   \<and> progress_queues (snd (compile_files example_env
                              [''uploads/blank.csv'', ''uploads/trades.csv''] ''Sim-101''
                              ''job-1'' example_state)) ''job-1''
       = Some [Progress 1 2 ''blank.csv'', Progress 2 2 ''trades.csv'',
               Done 2 0 ''Sim-101_compiled.csv'']
   \<and> history (snd (compile_files example_env
                      [''uploads/blank.csv'', ''uploads/trades.csv''] ''Sim-101''
                      ''job-1'' example_state))
       = [Put ''job-1'' (Progress 1 2 ''blank.csv''), ReadFile ''uploads/blank.csv'',
          Put ''job-1'' (Progress 2 2 ''trades.csv''), ReadFile ''uploads/trades.csv'',
          WriteCsv ''/srv/app/output/Sim-101_compiled.csv'',
          Put ''job-1'' (Done 2 0 ''Sim-101_compiled.csv'')]"
proof -
  let ?fps = "[''uploads/blank.csv'', ''uploads/trades.csv'']"
  let ?R = "compile_files example_env ?fps ''Sim-101'' ''job-1'' example_state"
  have q: "progress_queues example_state ''job-1'' = Some []"
    by (simp add: example_state_def)
  have h: "history example_state = []" by (simp add: example_state_def)
  have r: "fst ?R = Inr (Some ''/srv/app/output/Sim-101_compiled.csv'', 2, 0)" by code_simp
  have ev: "progress_events 1 (length ?fps) ?fps
              = [Progress 1 2 ''blank.csv'', Progress 2 2 ''trades.csv'']" by code_simp
  have ac: "progress_actions ''job-1'' 1 (length ?fps) ?fps
              = [Put ''job-1'' (Progress 1 2 ''blank.csv''), ReadFile ''uploads/blank.csv'',
                 Put ''job-1'' (Progress 2 2 ''trades.csv''), ReadFile ''uploads/trades.csv'']"
    by code_simp
  have b: "basename ''/srv/app/output/Sim-101_compiled.csv'' = ''Sim-101_compiled.csv''"
    by code_simp
  from compile_event_sequence [OF q, of example_env ?fps "''Sim-101''"]
  obtain "term" rest where
    t: "progress_queues (snd ?R) ''job-1'' = Some ([] @ progress_events 1 (length ?fps) ?fps @ term)"
    and u: "history (snd ?R)
              = history example_state @ progress_actions ''job-1'' 1 (length ?fps) ?fps @ rest"
    and v: "fst ?R = Inr (None, 0, 0)
                \<and> term = [Error no_data_message]
                \<and> rest = [Put ''job-1'' (Error no_data_message)]
              \<or> (\<exists>out n d. fst ?R = Inr (Some out, n, d)
                    \<and> term = [Done n d (basename out)]
                    \<and> rest = [WriteCsv out, Put ''job-1'' (Done n d (basename out))])
              \<or> (\<exists>e. fst ?R = Inl e \<and> term = [] \<and> rest = [])"
    by blast
  from v r b have "term = [Done 2 0 ''Sim-101_compiled.csv'']
      \<and> rest = [WriteCsv ''/srv/app/output/Sim-101_compiled.csv'',
                 Put ''job-1'' (Done 2 0 ''Sim-101_compiled.csv'')]"
    by auto
  with t u q r show ?thesis unfolding ev ac h by simp
qed

text \<open>
  C8: at two readable files, one whose column names are equal once trimmed and one with
  another column, \<^verbatim>\<open>pd.concat\<close> raises while aligning them: the call ends with the
  exception, after its two progress events, and the job's queue never gets a terminal
  event.
\<close>

theorem compile_raise_no_terminal_event:
  "read_tables example_env [''uploads/x.csv'', ''uploads/y.csv'']
     = [\<lparr>columns = [''Qty'', ''Qty''], rows = [[Num 1, Num 2]]\<rparr>,
        \<lparr>columns = [''Price''], rows = [[Num 3]]\<rparr>]
   \<and> progress_queues example_state ''job-1'' = Some []
   \<and> fst (compile_files example_env [''uploads/x.csv'', ''uploads/y.csv''] ''Sim-101''
            ''job-1'' example_state) = Inl InvalidIndexError
   \<and> progress_queues (snd (compile_files example_env [''uploads/x.csv'', ''uploads/y.csv'']
                              ''Sim-101'' ''job-1'' example_state)) ''job-1''
       = Some [Progress 1 2 ''x.csv'', Progress 2 2 ''y.csv'']
   \<and> filter is_terminal [Progress 1 2 ''x.csv'', Progress 2 2 ''y.csv''] = []"
  by code_simp

end
